theory Spec2Isabelle
  imports Main "HOL-Library.Log_Nat"
begin

section \<open>smallsh: a shallow embedding of \<^verbatim>\<open>smallsh.c\<close>\<close>

text \<open>
  The development follows the C source function by function. A C string is a
  \<^typ>\<open>string\<close>; the linked list of \<^verbatim>\<open>struct argument\<close> is the list of its
  \<^verbatim>\<open>text\<close> fields together with the three attributes that the code keeps in the
  head node only; the linked list of \<^verbatim>\<open>struct childProc\<close> is the list of its
  \<^verbatim>\<open>id\<close> fields. Whatever the C code does that has no defined result (a read
  through a null or dangling pointer, a write past the line buffer) is a value of
  type \<open>fault\<close>, so that it shows up as a branch of the model.
\<close>

subsection \<open>Faults\<close>

datatype fault =
    NullDeref        \<comment> \<open>a read through a NULL pointer\<close>
  | UseAfterFree     \<comment> \<open>a read through a pointer to a node that was freed\<close>
  | BufferOverflow   \<comment> \<open>an access to \<^verbatim>\<open>input[i]\<close> with \<^verbatim>\<open>i\<close> outside the array\<close>
  | Undefined        \<comment> \<open>\<^verbatim>\<open>log10\<close> of a process id that is not positive\<close>

subsection \<open>The command descriptor\<close>

text \<open>
  \<^verbatim>\<open>struct argument\<close>: \<open>words\<close> is the list of the \<^verbatim>\<open>text\<close> fields from
  the head on; it is never empty, because a descriptor is a non-null head node.
  \<^verbatim>\<open>redirInput\<close>, \<^verbatim>\<open>redirOutput\<close> and \<^verbatim>\<open>background\<close> are the fields of the
  head node (\<open>None\<close> is the NULL pointer). The field \<^verbatim>\<open>position\<close> is written
  once and never read, so it is left out.
\<close>

record argument =
  words :: "string list"
  redirInput :: "string option"
  redirOutput :: "string option"
  background :: bool

abbreviation NUL :: char where "NUL \<equiv> CHR 0x00"
abbreviation NL :: char where "NL \<equiv> CHR 0x0A"
abbreviation SP :: char where "SP \<equiv> CHR '' ''"

subsection \<open>Splitting into words\<close>

text \<open>
  One call of \<^verbatim>\<open>strtok_r\<close> with the delimiter set \<^verbatim>\<open>" "\<close>: skip the leading
  spaces; if nothing is left there is no token; otherwise the token runs up to
  the next space, and the scan resumes behind that space.
\<close>

definition strtok_r :: "string \<Rightarrow> (string \<times> string) option" where
  "strtok_r s =
     (let s' = dropWhile (\<lambda>c. c = SP) s
      in if s' = [] then None
         else Some (takeWhile (\<lambda>c. c \<noteq> SP) s', drop 1 (dropWhile (\<lambda>c. c \<noteq> SP) s')))"

lemma strtok_r_shorter: "strtok_r s = Some (t, r) \<Longrightarrow> length r < length s"
proof -
  assume a: "strtok_r s = Some (t, r)"
  let ?s' = "dropWhile (\<lambda>c. c = SP) s"
  from a have ne: "?s' \<noteq> []" and r: "r = drop 1 (dropWhile (\<lambda>c. c \<noteq> SP) ?s')"
    by (auto simp: strtok_r_def Let_def split: if_splits)
  from ne obtain a' list where s': "?s' = a' # list"
    by (cases ?s') auto
  have "a' \<noteq> SP"
    using hd_dropWhile [of "\<lambda>c. c = SP" s] ne s' by simp
  then have "dropWhile (\<lambda>c. c \<noteq> SP) ?s' = dropWhile (\<lambda>c. c \<noteq> SP) list"
    using s' by simp
  moreover have "length (dropWhile (\<lambda>c. c \<noteq> SP) list) \<le> length list"
    by (rule length_dropWhile_le)
  moreover have "length ?s' \<le> length s"
    by (rule length_dropWhile_le)
  ultimately show ?thesis using r s' by simp
qed

text \<open>
  The \<^verbatim>\<open>while (token != NULL)\<close> loop of \<^verbatim>\<open>separateInput\<close>: every token is
  appended at the tail of the list.
\<close>

function tokens :: "string \<Rightarrow> string list" where
  "tokens s = (case strtok_r s of None \<Rightarrow> [] | Some (t, r) \<Rightarrow> t # tokens r)"
  by pat_completeness auto
termination
  by (relation "measure length") (auto simp: strtok_r_shorter)

declare tokens.simps [simp del]

subsection \<open>Background detection\<close>

text \<open>
  \<^verbatim>\<open>setBackground\<close>: the flag is set unless the global \<^verbatim>\<open>backgroundOnly\<close> holds;
  the last node is unlinked and freed only when the head has a successor.
\<close>

definition setBackground :: "bool \<Rightarrow> argument \<Rightarrow> argument" where
  "setBackground backgroundOnly head =
     (let head1 = (if backgroundOnly = False then head\<lparr>background := True\<rparr> else head)
      in if tl (words head1) \<noteq> [] then head1\<lparr>words := butlast (words head1)\<rparr> else head1)"

text \<open>\<^verbatim>\<open>makeArgument\<close> fills a node; for the head these are the initial attributes.\<close>

definition makeArgument :: "string list \<Rightarrow> argument" where
  "makeArgument ws = \<lparr>words = ws, redirInput = None, redirOutput = None, background = False\<rparr>"

text \<open>
  \<^verbatim>\<open>separateInput\<close>: after the loop \<^verbatim>\<open>tail\<close> is the last node, or still NULL
  when \<^verbatim>\<open>strtok_r\<close> found no token at all; \<^verbatim>\<open>tail->text\<close> is read without a test.
\<close>

definition separateInput :: "bool \<Rightarrow> string \<Rightarrow> fault + argument" where
  "separateInput backgroundOnly input =
     (let ws = tokens input
      in if ws = [] then Inl NullDeref
         else if last ws = ''&'' then Inr (setBackground backgroundOnly (makeArgument ws))
         else Inr (makeArgument ws))"

subsection \<open>Redirection detection\<close>

text \<open>
  \<^verbatim>\<open>redirectIO\<close>: with a single node nothing happens. Otherwise the loop leaves
  \<^verbatim>\<open>current\<close> at the last node, \<^verbatim>\<open>previous\<close> at the one before it, and
  \<^verbatim>\<open>prevprev\<close> at the one before that, or NULL when the list has two nodes.
  For \<^verbatim>\<open>">"\<close> the two nodes are cut off only if \<^verbatim>\<open>prevprev\<close> is not NULL.
  For \<^verbatim>\<open>"<"\<close> the call \<^verbatim>\<open>freeArguments(previous)\<close> stands outside that test:
  with two nodes \<^verbatim>\<open>previous\<close> is the head, so the head itself is freed, and the
  caller, which goes on reading \<^verbatim>\<open>head\<close> in every case, reads freed memory.
\<close>

definition redirectIO :: "argument \<Rightarrow> fault + (bool \<times> argument)" where
  "redirectIO head =
     (let ws = words head
      in if tl ws = [] then Inr (False, head)
         else
           let current = last ws;
               previous = last (butlast ws);
               prevprev_null = (length ws = 2)
           in if previous = ''>'' then
                Inr (True,
                     (if \<not> prevprev_null
                      then head\<lparr>redirOutput := Some current, words := butlast (butlast ws)\<rparr>
                      else head\<lparr>redirOutput := Some current\<rparr>))
              else if previous = ''<'' then
                (if \<not> prevprev_null
                 then Inr (True, head\<lparr>redirInput := Some current, words := butlast (butlast ws)\<rparr>)
                 else Inl UseAfterFree)
              else Inr (False, head))"

text \<open>
  The first statement of \<^verbatim>\<open>otherProcess\<close>:
  \<^verbatim>\<open>if (redirectIO(head)) redirectIO(head);\<close>
\<close>

definition lookForRedirection :: "argument \<Rightarrow> fault + argument" where
  "lookForRedirection head =
     (case redirectIO head of
        Inl f \<Rightarrow> Inl f
      | Inr (found, head1) \<Rightarrow>
          if found then (case redirectIO head1 of Inl f \<Rightarrow> Inl f | Inr (_, head2) \<Rightarrow> Inr head2)
          else Inr head1)"

subsection \<open>The world outside the shell process\<close>

text \<open>
  The shell talks to the kernel through \<^verbatim>\<open>fork\<close>, \<^verbatim>\<open>waitpid\<close>, \<^verbatim>\<open>kill\<close>,
  \<^verbatim>\<open>chdir\<close> and its standard streams. The record \<open>world\<close> holds what these
  calls read and change, as seen from the shell process:
  \<^item> \<open>stdin\<close>, the characters not yet read; \<open>stdout\<close>, the characters written;
  \<^item> \<open>procs\<close>, the children of the shell that it has not yet waited for: a child
    is running, or running with a SIGTERM of the shell on its way, or terminated
    and waiting to be reaped with its wait status;
  \<^item> \<open>calls\<close>, the log of the process-related system calls made so far;
  \<^item> what the code cannot know beforehand: \<open>fork_result\<close> is the value that the
    next \<^verbatim>\<open>fork\<close> returns in the shell process; \<open>ends p\<close> is the status with which
    the running child \<open>p\<close> terminates when the shell blocks on it (\<open>None\<close>: it never
    does), \<open>ends_term p\<close> the same for a child to which the shell has sent SIGTERM;
    \<open>stack_input\<close> and \<open>stack_status\<close> are the values found in the locals
    \<^verbatim>\<open>char input[LINE_LENGTH]\<close> and \<^verbatim>\<open>int childStatus\<close>, which the code declares
    without initialising them.
  These last fields describe the surroundings at the moment of a call; the
  functions of the shell never change them, and between two turns of the main
  loop they may be anything.
  A wait status is kept decoded: \<^verbatim>\<open>WIFEXITED\<close> holds for \<open>WExited n\<close>, with
  \<^verbatim>\<open>WEXITSTATUS\<close> \<open>n\<close>; otherwise it is \<open>WSignaled n\<close> with \<^verbatim>\<open>WTERMSIG\<close> \<open>n\<close>.
  Messages of \<^verbatim>\<open>perror\<close> go to the error stream, which is not modelled.
\<close>

type_synonym pid = int

datatype wstatus = WExited int | WSignaled int

datatype proc = Running | Signalled | Zombie wstatus

datatype syscall =
    Fork pid                  \<comment> \<open>a \<^verbatim>\<open>fork\<close> that returned this pid to the shell\<close>
  | Kill pid int              \<comment> \<open>\<^verbatim>\<open>kill(pid, sig)\<close>\<close>
  | Waitpid pid bool          \<comment> \<open>\<^verbatim>\<open>waitpid(pid, &childStatus, options)\<close>; \<open>True\<close> is \<^verbatim>\<open>WNOHANG\<close>\<close>
  | Chdir "string option"     \<comment> \<open>\<^verbatim>\<open>chdir(path)\<close>; \<open>None\<close> is \<^verbatim>\<open>getenv("HOME")\<close>\<close>

record world =
  stdin :: string
  stdout :: string
  procs :: "pid \<Rightarrow> proc option"
  calls :: "syscall list"
  fork_result :: int
  ends :: "pid \<Rightarrow> wstatus option"
  ends_term :: "pid \<Rightarrow> wstatus option"
  stack_input :: "nat \<Rightarrow> char"
  stack_status :: wstatus

text \<open>
  How a function of the shell can stop instead of returning: with a fault, by
  \<^verbatim>\<open>exit(n)\<close> (the world at that moment is kept), by blocking forever in
  \<^verbatim>\<open>waitpid\<close>, or by being the child side of \<^verbatim>\<open>fork\<close>, which the model of the
  shell process does not follow.
\<close>

datatype stop = Fault fault | Exit int world | Blocked | InChild

definition SIGTERM :: int where "SIGTERM = 15"

definition printf :: "world \<Rightarrow> string \<Rightarrow> world" where
  "printf w s = w\<lparr>stdout := stdout w @ s\<rparr>"

text \<open>
  \<^verbatim>\<open>getchar\<close>, assigned to a \<^verbatim>\<open>char\<close>: at the end of the input the value
  \<^verbatim>\<open>EOF\<close> is truncated to the character \<open>0xFF\<close>, again and again.
\<close>

definition getchar :: "string \<Rightarrow> char \<times> string" where
  "getchar inp = (case inp of [] \<Rightarrow> (CHR 0xFF, []) | c # cs \<Rightarrow> (c, cs))"

text \<open>
  \<^verbatim>\<open>waitpid(pid, &childStatus, options)\<close> for a positive \<open>pid\<close> (the job table
  holds results of successful forks only). The result is the return value, the
  content of \<^verbatim>\<open>childStatus\<close> afterwards and the new world; \<open>None\<close> when the call
  never returns. A pid that is not an unreaped child gives \<open>-1\<close> and leaves
  \<^verbatim>\<open>childStatus\<close> alone; a terminated child is reaped; a live child gives \<open>0\<close>
  under \<^verbatim>\<open>WNOHANG\<close> and is waited for otherwise.
\<close>

definition reap :: "world \<Rightarrow> pid \<Rightarrow> world" where
  "reap w p = w\<lparr>procs := (procs w)(p := None)\<rparr>"

definition waitpid :: "world \<Rightarrow> pid \<Rightarrow> bool \<Rightarrow> wstatus \<Rightarrow> (int \<times> wstatus \<times> world) option" where
  "waitpid w p nohang childStatus =
     (let w1 = w\<lparr>calls := calls w @ [Waitpid p nohang]\<rparr>
      in case procs w p of
           None \<Rightarrow> Some (- 1, childStatus, w1)
         | Some (Zombie st) \<Rightarrow> Some (p, st, reap w1 p)
         | Some Running \<Rightarrow>
             if nohang then Some (0, childStatus, w1)
             else (case ends w p of None \<Rightarrow> None | Some st \<Rightarrow> Some (p, st, reap w1 p))
         | Some Signalled \<Rightarrow>
             if nohang then Some (0, childStatus, w1)
             else (case ends_term w p of None \<Rightarrow> None | Some st \<Rightarrow> Some (p, st, reap w1 p)))"

definition kill :: "world \<Rightarrow> pid \<Rightarrow> int \<Rightarrow> world" where
  "kill w p sig =
     (let w1 = w\<lparr>calls := calls w @ [Kill p sig]\<rparr>
      in if sig = SIGTERM \<and> procs w p = Some Running
         then w1\<lparr>procs := (procs w)(p \<mapsto> Signalled)\<rparr> else w1)"

text \<open>A child that has terminated and has not been reaped yet.\<close>

definition terminated :: "world \<Rightarrow> pid \<Rightarrow> bool" where
  "terminated w p = (case procs w p of Some (Zombie st) \<Rightarrow> True | _ \<Rightarrow> False)"

text \<open>A successful \<^verbatim>\<open>fork\<close>, seen from the shell: one more running child.\<close>

definition fork_parent :: "world \<Rightarrow> pid \<Rightarrow> world" where
  "fork_parent w newID =
     w\<lparr>calls := calls w @ [Fork newID], procs := (procs w)(newID \<mapsto> Running)\<rparr>"

subsection \<open>Printing numbers\<close>

definition digit :: "nat \<Rightarrow> char" where
  "digit d = ''0123456789'' ! d"

fun decimal :: "nat \<Rightarrow> string" where
  "decimal n = (if n < 10 then [digit n] else decimal (n div 10) @ [digit (n mod 10)])"

declare decimal.simps [simp del]

text \<open>The conversion \<^verbatim>\<open>%d\<close>.\<close>

definition show_int :: "int \<Rightarrow> string" where
  "show_int k = (if k < 0 then CHR ''-'' # decimal (nat (- k)) else decimal (nat k))"

subsection \<open>Reading a line\<close>

definition LINE_LENGTH :: nat where "LINE_LENGTH = 2048"

text \<open>
  The array \<^verbatim>\<open>input\<close> is a function from indices to characters. Every access
  is guarded in the model by the bound that the C code does not check.
  \<open>sprintf input i s\<close> stores the characters of \<open>s\<close> from index \<open>i\<close> on, followed
  by the terminating NUL.
\<close>

primrec sprintf :: "(nat \<Rightarrow> char) \<Rightarrow> nat \<Rightarrow> string \<Rightarrow> (nat \<Rightarrow> char)" where
  "sprintf input i [] = input(i := NUL)"
| "sprintf input i (c # cs) = sprintf (input(i := c)) (Suc i) cs"

text \<open>
  \<^verbatim>\<open>check$$\<close> (the name is not an identifier here), called after a \<^verbatim>\<open>$\<close> was
  read. If the next character is \<^verbatim>\<open>$\<close> too, the process id is printed at
  \<^verbatim>\<open>input + i\<close> and \<^verbatim>\<open>i\<close> advances by \<^verbatim>\<open>floor(log10(processID)+1)\<close>, which is
  \<^term>\<open>floorlog 10 processID\<close> for a positive process id and undefined otherwise.
  If not, the \<^verbatim>\<open>$\<close> is stored, and behind it either the terminator (for a
  newline) or the character just read.
\<close>

definition check_dollars ::
  "(nat \<Rightarrow> char) \<Rightarrow> nat \<Rightarrow> nat \<Rightarrow> string \<Rightarrow> fault + ((nat \<Rightarrow> char) \<times> nat \<times> string)" where
  "check_dollars input i processID inp =
     (case getchar inp of (c, rest) \<Rightarrow>
        if c = CHR ''$'' then
          (if processID = 0 then Inl Undefined
           else if i + length (decimal processID) < LINE_LENGTH
           then Inr (sprintf input i (decimal processID), i + floorlog 10 processID, rest)
           else Inl BufferOverflow)
        else if i + 1 < LINE_LENGTH then
          (if c = NL then Inr (input(i := CHR ''$'', i + 1 := NUL), i + 1, rest)
           else Inr (input(i := CHR ''$'', i + 1 := c), i + 2, rest))
        else Inl BufferOverflow)"

lemma check_dollars_advances:
  "check_dollars input i processID inp = Inr (input1, i1, rest1) \<Longrightarrow> i < i1"
  by (auto simp: check_dollars_def floorlog_def split: prod.splits if_splits)

text \<open>
  The \<^verbatim>\<open>while ((c = getchar()) != '\n')\<close> loop of \<^verbatim>\<open>getInput\<close>. After
  \<^verbatim>\<open>check$$\<close> the loop is left when \<^verbatim>\<open>input[i]\<close> is NUL. The result is the
  array, the index and the rest of the input stream.
\<close>

function getInput_loop ::
  "nat \<Rightarrow> (nat \<Rightarrow> char) \<Rightarrow> nat \<Rightarrow> string \<Rightarrow> fault + ((nat \<Rightarrow> char) \<times> nat \<times> string)" where
  "getInput_loop processID input i inp =
     (case getchar inp of (c, rest) \<Rightarrow>
        if c \<noteq> NL then
          if c = CHR ''$'' then
            (case check_dollars input i processID rest of
               Inl f \<Rightarrow> Inl f
             | Inr (input1, i1, rest1) \<Rightarrow>
                 if LINE_LENGTH \<le> i1 then Inl BufferOverflow
                 else if input1 i1 = NUL then Inr (input1, i1, rest1)
                 else getInput_loop processID input1 i1 rest1)
          else if i < LINE_LENGTH then getInput_loop processID (input(i := c)) (i + 1) rest
          else Inl BufferOverflow
        else Inr (input, i, rest))"
  by pat_completeness auto
termination
  by (relation "measure (\<lambda>(processID, input, i, inp). LINE_LENGTH - i)")
     (auto dest: check_dollars_advances)

declare getInput_loop.simps [simp del]

text \<open>
  The C string that starts at \<^verbatim>\<open>input[0]\<close>: the characters before the first
  NUL, read within the array.
\<close>

fun cstring_from :: "(nat \<Rightarrow> char) \<Rightarrow> nat \<Rightarrow> nat \<Rightarrow> string" where
  "cstring_from input k 0 = []"
| "cstring_from input k (Suc n) =
     (if input k = NUL then [] else input k # cstring_from input (Suc k) n)"

definition cstring :: "(nat \<Rightarrow> char) \<Rightarrow> string" where
  "cstring input = cstring_from input 0 LINE_LENGTH"

text \<open>
  \<^verbatim>\<open>getInput\<close>: prompt, read the line, terminate it, and hand it to
  \<^verbatim>\<open>separateInput\<close> unless it is empty or a comment; \<open>None\<close> is the NULL head.
  The flag \<open>backgroundOnly\<close> is the value of the global variable when
  \<^verbatim>\<open>setBackground\<close> reads it.
\<close>

definition getInput :: "nat \<Rightarrow> bool \<Rightarrow> world \<Rightarrow> fault + (argument option \<times> world)" where
  "getInput processID backgroundOnly w =
     (let w1 = printf w '': ''
      in case getInput_loop processID (stack_input w1) 0 (stdin w1) of
           Inl f \<Rightarrow> Inl f
         | Inr (input, i, rest) \<Rightarrow>
             if LINE_LENGTH \<le> i then Inl BufferOverflow
             else
               let input1 = input(i := NUL); w2 = w1\<lparr>stdin := rest\<rparr>
               in if i = 0 \<or> input1 0 = CHR ''#'' then Inr (None, w2)
                  else (case separateInput backgroundOnly (cstring input1) of
                          Inl f \<Rightarrow> Inl f
                        | Inr head \<Rightarrow> Inr (Some head, w2)))"

subsection \<open>The list of child processes\<close>

text \<open>
  \<^verbatim>\<open>removeChildProc\<close> unlinks the first node with the given id, if there is
  one; \<^verbatim>\<open>createChildProc\<close> appends a node at the end.
\<close>

fun removeChildProc :: "pid list \<Rightarrow> pid \<Rightarrow> pid list" where
  "removeChildProc [] ident = []"
| "removeChildProc (c # cs) ident = (if c = ident then cs else c # removeChildProc cs ident)"

definition createChildProc :: "pid list \<Rightarrow> pid \<Rightarrow> pid list" where
  "createChildProc head ident = head @ [ident]"

lemma length_removeChildProc_le: "length (removeChildProc cs ident) \<le> length cs"
  by (induction cs) auto

subsection \<open>The status of the last foreground command\<close>

record endStatus =
  exit :: bool
  num :: int

definition printStatus :: "endStatus \<Rightarrow> world \<Rightarrow> world" where
  "printStatus exitStatus w =
     printf (printf w (if exit exitStatus = True then ''exit value '' else ''terminated by signal ''))
            (show_int (num exitStatus) @ [NL])"

subsection \<open>Running a command\<close>

text \<open>
  \<^verbatim>\<open>otherProcess\<close>, in the shell process. \<^verbatim>\<open>fork\<close> returns \<open>-1\<close> (the shell
  exits with code 1), \<open>0\<close> (this is the child, not followed here) or the pid
  of the new child. The shell appends the pid to the list in both modes. In the
  foreground it waits for the child, decodes the status into \<^verbatim>\<open>exitStatus\<close>,
  prints the notice for signal 2 and removes the pid that \<^verbatim>\<open>waitpid\<close> returned;
  in the background it prints the pid.
\<close>

definition otherProcess ::
  "argument \<Rightarrow> pid list \<Rightarrow> endStatus \<Rightarrow> world \<Rightarrow> stop + (pid list \<times> endStatus \<times> world)" where
  "otherProcess head children exitStatus w =
     (case lookForRedirection head of
        Inl f \<Rightarrow> Inl (Fault f)
      | Inr head1 \<Rightarrow>
          let newID = fork_result w
          in if newID = - 1 then Inl (Exit 1 w)
             else if newID = 0 then Inl InChild
             else
               let w1 = fork_parent w newID;
                   children1 = createChildProc children newID
               in if \<not> background head1 then
                    (case waitpid w1 newID False (stack_status w1) of
                       None \<Rightarrow> Inl Blocked
                     | Some (newID1, childStatus, w2) \<Rightarrow>
                         (case childStatus of
                            WExited n \<Rightarrow>
                              Inr (removeChildProc children1 newID1,
                                   exitStatus\<lparr>exit := True, num := n\<rparr>, w2)
                          | WSignaled n \<Rightarrow>
                              Inr (removeChildProc children1 newID1,
                                   exitStatus\<lparr>exit := False, num := n\<rparr>,
                                   if n = 2
                                   then printf w2 (''terminated by signal '' @ show_int n @ [NL])
                                   else w2)))
                  else
                    Inr (children1, exitStatus,
                         printf w1 (''background pid is '' @ show_int newID @ [NL])))"

subsection \<open>The built-in commands\<close>

text \<open>
  \<^verbatim>\<open>killChildren\<close>: for every node in turn, \<^verbatim>\<open>kill(id, SIGTERM)\<close> and a blocking
  \<^verbatim>\<open>waitpid(id, &childStatus, 0)\<close>. \<open>None\<close> when a wait never returns.
\<close>

fun killChildren :: "pid list \<Rightarrow> wstatus \<Rightarrow> world \<Rightarrow> world option" where
  "killChildren [] childStatus w = Some w"
| "killChildren (p # ps) childStatus w =
     (case waitpid (kill w p SIGTERM) p False childStatus of
        None \<Rightarrow> None
      | Some (r, childStatus1, w1) \<Rightarrow> killChildren ps childStatus1 w1)"

definition changeDir :: "argument \<Rightarrow> world \<Rightarrow> world" where
  "changeDir head w =
     (case tl (words head) of
        [] \<Rightarrow> w\<lparr>calls := calls w @ [Chdir None]\<rparr>
      | dir # _ \<Rightarrow> w\<lparr>calls := calls w @ [Chdir (Some dir)]\<rparr>)"

text \<open>
  \<^verbatim>\<open>builtIn\<close> compares the first word with \<^verbatim>\<open>exit\<close>, \<^verbatim>\<open>cd\<close> and
  \<^verbatim>\<open>status\<close>, in this order. The result is the returned flag and the world.
\<close>

definition builtIn :: "argument \<Rightarrow> pid list \<Rightarrow> endStatus \<Rightarrow> world \<Rightarrow> stop + (bool \<times> world)" where
  "builtIn head children exitStatus w =
     (case words head of
        [] \<Rightarrow> Inl (Fault NullDeref)
      | text # _ \<Rightarrow>
          if text = ''exit'' then
            (case killChildren children (stack_status w) w of
               None \<Rightarrow> Inl Blocked
             | Some w1 \<Rightarrow> Inl (Exit 0 w1))
          else if text = ''cd'' then Inr (True, changeDir head w)
          else if text = ''status'' then Inr (True, printStatus exitStatus w)
          else Inr (False, w))"

subsection \<open>Collecting terminated children\<close>

text \<open>The three messages of \<^verbatim>\<open>checkTerminatedChildren\<close>.\<close>

definition announce :: "bool \<Rightarrow> int \<Rightarrow> wstatus \<Rightarrow> string" where
  "announce sig waitStatus childStatus =
     (case childStatus of
        WExited n \<Rightarrow>
          ''background pid '' @ show_int waitStatus @ '' is done: exit value '' @ show_int n @ [NL]
      | WSignaled n \<Rightarrow>
          if sig then ''terminated by signal '' @ show_int n @ [NL]
          else ''background pid '' @ show_int waitStatus @ '' is done: terminated by signal ''
               @ show_int n @ [NL])"

text \<open>
  The loop of \<^verbatim>\<open>checkTerminatedChildren\<close>. The list is \<open>kept @ p # rest\<close>:
  \<open>kept\<close> are the nodes before \<^verbatim>\<open>current\<close> that are still linked, \<open>p\<close> is
  \<^verbatim>\<open>current->id\<close>. When \<^verbatim>\<open>waitpid\<close> returns a non-zero value, \<^verbatim>\<open>current\<close>
  moves on first, and then \<^verbatim>\<open>removeChildProc(head, waitStatus)\<close> unlinks the first
  node with that id: a node up to \<open>p\<close>, or else a node of \<open>rest\<close>; if that is
  the very node \<^verbatim>\<open>current\<close> now points to, the next test reads freed memory.
\<close>

function reap_loop ::
  "pid list \<Rightarrow> pid list \<Rightarrow> bool \<Rightarrow> wstatus \<Rightarrow> world \<Rightarrow> stop + (pid list \<times> world)" where
  "reap_loop kept [] sig childStatus w = Inr (kept, w)"
| "reap_loop kept (p # rest) sig childStatus w =
     (case waitpid w p True childStatus of
        None \<Rightarrow> Inl Blocked
      | Some (waitStatus, childStatus1, w1) \<Rightarrow>
          if waitStatus \<noteq> 0 then
            let w2 = printf w1 (announce sig waitStatus childStatus1)
            in if waitStatus \<in> set (kept @ [p])
               then reap_loop (removeChildProc (kept @ [p]) waitStatus) rest sig childStatus1 w2
               else if rest \<noteq> [] \<and> hd rest = waitStatus then Inl (Fault UseAfterFree)
               else reap_loop (kept @ [p]) (removeChildProc rest waitStatus) sig childStatus1 w2
          else reap_loop (kept @ [p]) rest sig childStatus1 w1)"
  by pat_completeness auto
termination
  by (relation "measure (\<lambda>(kept, rest, sig, childStatus, w). length rest)")
     (auto simp: length_removeChildProc_le less_Suc_eq_le)

definition checkTerminatedChildren :: "pid list \<Rightarrow> bool \<Rightarrow> world \<Rightarrow> stop + (pid list \<times> world)" where
  "checkTerminatedChildren head sig w =
     (if head = [] then Inr (head, w) else reap_loop [] head sig (stack_status w) w)"

subsection \<open>One turn of the main loop\<close>

text \<open>
  The body of \<^verbatim>\<open>while(true)\<close> in \<^verbatim>\<open>main\<close>, on the variables \<^verbatim>\<open>children\<close>
  and \<^verbatim>\<open>exitStatus\<close>. While the shell waits for the line, children may
  terminate: \<open>elapse\<close> is what happens to the table of children meanwhile.
\<close>

definition main_iteration ::
  "nat \<Rightarrow> bool \<Rightarrow> ((pid \<Rightarrow> proc option) \<Rightarrow> (pid \<Rightarrow> proc option)) \<Rightarrow>
   pid list \<times> endStatus \<times> world \<Rightarrow> stop + (pid list \<times> endStatus \<times> world)" where
  "main_iteration processID backgroundOnly elapse state =
     (case state of (children, exitStatus, w) \<Rightarrow>
        (case checkTerminatedChildren children False w of
           Inl s \<Rightarrow> Inl s
         | Inr (children1, w1) \<Rightarrow>
             (case getInput processID backgroundOnly w1 of
                Inl f \<Rightarrow> Inl (Fault f)
              | Inr (None, w2) \<Rightarrow> Inr (children1, exitStatus, w2\<lparr>procs := elapse (procs w2)\<rparr>)
              | Inr (Some head, w2) \<Rightarrow>
                  (case builtIn head children1 exitStatus (w2\<lparr>procs := elapse (procs w2)\<rparr>) of
                     Inl s \<Rightarrow> Inl s
                   | Inr (handled, w3) \<Rightarrow>
                       if handled then Inr (children1, exitStatus, w3)
                       else otherProcess head children1 exitStatus w3))))"

subsection \<open>A world for running examples\<close>

text \<open>
  No input, no output, no children, a \<^verbatim>\<open>fork\<close> that fails, zeroed locals. The
  examples below change the fields they need.
\<close>

definition idle :: world where
  "idle = \<lparr>stdin = [], stdout = [], procs = (\<lambda>p. None), calls = [], fork_result = - 1,
           ends = (\<lambda>p. None), ends_term = (\<lambda>p. None), stack_input = (\<lambda>k. NUL),
           stack_status = WExited 0\<rparr>"

section \<open>Properties\<close>

subsection \<open>Evaluation of the examples\<close>

lemma cstring_from_unfold:
  "0 < n \<Longrightarrow> cstring_from input k n =
     (if input k = NUL then [] else input k # cstring_from input (Suc k) (n - 1))"
  by (cases n) simp_all

lemmas eval_line = getInput_def getInput_loop.simps check_dollars_def getchar_def printf_def
  cstring_def LINE_LENGTH_def cstring_from_unfold separateInput_def makeArgument_def
  setBackground_def tokens.simps strtok_r_def decimal.simps digit_def compute_floorlog

lemmas eval_parse = separateInput_def makeArgument_def tokens.simps strtok_r_def
  lookForRedirection_def redirectIO_def

lemmas eval_turn = main_iteration_def checkTerminatedChildren_def waitpid_def reap_def
  announce_def builtIn_def printStatus_def changeDir_def idle_def show_int_def
  otherProcess_def lookForRedirection_def redirectIO_def fork_parent_def createChildProc_def

lemma show_int_2: "show_int 2 = ''2''"
  by (simp add: show_int_def decimal.simps digit_def)

lemma show_int_digits: "show_int 9 = ''9''" "show_int 0 = ''0''" "show_int 15 = ''15''"
  by (simp_all add: show_int_def decimal.simps digit_def)

lemma show_int_more: "show_int 3 = ''3''" "show_int 7 = ''7''"
  by (simp_all add: show_int_def decimal.simps digit_def)

lemma sleep_no_redirection:
  "lookForRedirection (makeArgument [''sleep'', ''100'']) = Inr (makeArgument [''sleep'', ''100''])"
  by (simp add: lookForRedirection_def redirectIO_def makeArgument_def)

lemma turn_status:
  "main_iteration 4821 False (\<lambda>m. m)
     ([7], \<lparr>exit = False, num = 15\<rparr>,
      idle\<lparr>stdin := ''status'' @ [NL], procs := (\<lambda>p. None)(7 \<mapsto> Zombie (WExited 3))\<rparr>) =
   Inr ([], \<lparr>exit = False, num = 15\<rparr>,
        idle\<lparr>stdin := [],
             stdout := ''background pid 7 is done: exit value 3'' @ [NL] @ '': ''
                       @ ''terminated by signal 15'' @ [NL],
             calls := [Waitpid 7 True]\<rparr>)"
  by (simp add: eval_turn eval_line)

subsection \<open>The tokenizer\<close>

text \<open>
  A line without \<^verbatim>\<open>$\<close> is stored as it is, and the C string handed to
  \<^verbatim>\<open>separateInput\<close> is the line itself.
\<close>

lemma getInput_loop_plain:
  assumes "CHR ''$'' \<notin> set line" and "NL \<notin> set line" and "i + length line \<le> LINE_LENGTH"
  shows "getInput_loop processID input i (line @ NL # rest) =
           Inr ((\<lambda>k. if i \<le> k \<and> k < i + length line then line ! (k - i) else input k),
                i + length line, rest)"
  using assms
proof (induction line arbitrary: input i)
  case Nil
  have "(\<lambda>k. if i \<le> k \<and> k < i + length ([] :: string) then [] ! (k - i) else input k) = input"
    by (auto simp: fun_eq_iff)
  then show ?case by (simp add: getInput_loop.simps getchar_def)
next
  case (Cons c cs)
  from Cons.prems have c: "c \<noteq> NL" "c \<noteq> CHR ''$''" and i: "i < LINE_LENGTH"
    and rest: "CHR ''$'' \<notin> set cs" "NL \<notin> set cs" "(i + 1) + length cs \<le> LINE_LENGTH"
    by auto
  have buf: "(\<lambda>k. if i + 1 \<le> k \<and> k < (i + 1) + length cs then cs ! (k - (i + 1))
                  else (input(i := c)) k)
           = (\<lambda>k. if i \<le> k \<and> k < i + length (c # cs) then (c # cs) ! (k - i) else input k)"
  proof (rule ext)
    fix k
    show "(if i + 1 \<le> k \<and> k < (i + 1) + length cs then cs ! (k - (i + 1))
           else (input(i := c)) k)
        = (if i \<le> k \<and> k < i + length (c # cs) then (c # cs) ! (k - i) else input k)"
    proof (cases "k = i")
      case True
      then show ?thesis by simp
    next
      case False
      then have "i \<le> k \<Longrightarrow> (c # cs) ! (k - i) = cs ! (k - (i + 1))"
        by (simp add: nth_Cons')
      with False show ?thesis by auto
    qed
  qed
  have "getInput_loop processID input i ((c # cs) @ NL # rest) =
          getInput_loop processID (input(i := c)) (i + 1) (cs @ NL # rest)"
    using c i by (subst getInput_loop.simps) (simp add: getchar_def)
  also have "\<dots> = Inr ((\<lambda>k. if i + 1 \<le> k \<and> k < (i + 1) + length cs then cs ! (k - (i + 1))
                             else (input(i := c)) k), (i + 1) + length cs, rest)"
    by (rule Cons.IH [OF rest])
  finally show ?case unfolding buf by simp
qed

lemma cstring_from_prefix:
  assumes "\<forall>j<length s. input (k + j) = s ! j" and "NUL \<notin> set s"
    and "input (k + length s) = NUL" and "length s < n"
  shows "cstring_from input k n = s"
  using assms
proof (induction s arbitrary: k n)
  case Nil
  then show ?case by (cases n) simp_all
next
  case (Cons c cs)
  from Cons.prems(4) obtain m where n: "n = Suc m" and m: "length cs < m"
    by (cases n) auto
  from Cons.prems(1) have h: "input k = c" by force
  from Cons.prems(1) have t: "\<forall>j<length cs. input (Suc k + j) = cs ! j" by force
  from Cons.prems(2) have c0: "c \<noteq> NUL" "NUL \<notin> set cs" by auto
  from Cons.prems(3) have e: "input (Suc k + length cs) = NUL" by simp
  from Cons.IH [OF t c0(2) e m] h c0 n show ?case by simp
qed

lemma getInput_plain:
  assumes "stdin w = line @ NL # rest" and "line \<noteq> []" and "hd line \<noteq> CHR ''#''"
    and "CHR ''$'' \<notin> set line" and "NL \<notin> set line" and "NUL \<notin> set line"
    and "length line < LINE_LENGTH"
  shows "getInput processID backgroundOnly w =
           (case separateInput backgroundOnly line of
              Inl f \<Rightarrow> Inl f
            | Inr head \<Rightarrow> Inr (Some head, w\<lparr>stdout := stdout w @ '': '', stdin := rest\<rparr>))"
proof -
  let ?buf = "\<lambda>k. if 0 \<le> k \<and> k < 0 + length line then line ! (k - 0) else stack_input w k"
  have le: "0 + length line \<le> LINE_LENGTH" using assms(7) by simp
  have loop: "getInput_loop processID (stack_input w) 0 (line @ NL # rest) =
                Inr (?buf, 0 + length line, rest)"
    by (rule getInput_loop_plain [OF assms(4) assms(5) le])
  let ?input1 = "?buf(length line := NUL)"
  have cs: "cstring ?input1 = line"
    unfolding cstring_def
    using assms(6,7) by (intro cstring_from_prefix) auto
  have first: "?input1 0 = hd line" using assms(2) by (cases line) auto
  show ?thesis
    using loop assms(1,2,3,7) cs first
    by (simp add: getInput_def printf_def Let_def split: sum.splits)
qed

lemma tokens_Nil: "tokens [] = []"
  by (simp add: tokens.simps strtok_r_def)

lemma separateInput_ampersand:
  assumes "tokens input = ws @ [''&'']"
  shows "separateInput backgroundOnly input =
           Inr \<lparr>words = (if ws = [] then [''&''] else ws), redirInput = None,
                redirOutput = None, background = (\<not> backgroundOnly)\<rparr>"
  using assms by (cases ws) (auto simp: separateInput_def setBackground_def makeArgument_def Let_def)

text \<open>
  Claim C5, as amended. Let the last word of a line be \<^verbatim>\<open>&\<close>. Then the
  descriptor that \<^verbatim>\<open>separateInput\<close> returns is a background one exactly if the
  shell is not in foreground-only mode; its words are the words before the final
  \<^verbatim>\<open>&\<close> when there are any, in both modes, and the single word \<^verbatim>\<open>&\<close>
  otherwise. This is also the descriptor that \<^verbatim>\<open>getInput\<close> returns for the line
  read from the input, when the line is not a comment, contains no \<^verbatim>\<open>$\<close> and
  fits the buffer.
\<close>

theorem c5_background_token:
  assumes "tokens line = ws @ [''&'']"
  shows "separateInput backgroundOnly line =
           Inr \<lparr>words = (if ws = [] then [''&''] else ws), redirInput = None,
                redirOutput = None, background = (\<not> backgroundOnly)\<rparr>
       \<and> (stdin w = line @ NL # rest \<and> hd line \<noteq> CHR ''#'' \<and> CHR ''$'' \<notin> set line
            \<and> NL \<notin> set line \<and> NUL \<notin> set line \<and> length line < LINE_LENGTH \<longrightarrow>
           getInput processID backgroundOnly w =
             Inr (Some \<lparr>words = (if ws = [] then [''&''] else ws), redirInput = None,
                        redirOutput = None, background = (\<not> backgroundOnly)\<rparr>,
                  w\<lparr>stdout := stdout w @ '': '', stdin := rest\<rparr>))"
proof (intro conjI impI)
  show sep: "separateInput backgroundOnly line =
           Inr \<lparr>words = (if ws = [] then [''&''] else ws), redirInput = None,
                redirOutput = None, background = (\<not> backgroundOnly)\<rparr>"
    by (rule separateInput_ampersand [OF assms])
  assume a: "stdin w = line @ NL # rest \<and> hd line \<noteq> CHR ''#'' \<and> CHR ''$'' \<notin> set line
            \<and> NL \<notin> set line \<and> NUL \<notin> set line \<and> length line < LINE_LENGTH"
  from assms have ne: "line \<noteq> []" using tokens_Nil by auto
  from a have "getInput processID backgroundOnly w =
           (case separateInput backgroundOnly line of
              Inl f \<Rightarrow> Inl f
            | Inr head \<Rightarrow> Inr (Some head, w\<lparr>stdout := stdout w @ '': '', stdin := rest\<rparr>))"
    by (intro getInput_plain ne) simp_all
  then show "getInput processID backgroundOnly w =
             Inr (Some \<lparr>words = (if ws = [] then [''&''] else ws), redirInput = None,
                        redirOutput = None, background = (\<not> backgroundOnly)\<rparr>,
                  w\<lparr>stdout := stdout w @ '': '', stdin := rest\<rparr>)"
    by (simp add: sep)
qed

theorem c5_background_token_witness:
  "tokens ''sleep 5 &'' = [''sleep'', ''5''] @ [''&'']
   \<and> stdin (idle\<lparr>stdin := ''sleep 5 &'' @ NL # ''ls''\<rparr>) = ''sleep 5 &'' @ NL # ''ls''
   \<and> separateInput True ''sleep 5 &'' =
       Inr \<lparr>words = [''sleep'', ''5''], redirInput = None, redirOutput = None, background = False\<rparr>
   \<and> getInput 4821 True (idle\<lparr>stdin := ''sleep 5 &'' @ NL # ''ls''\<rparr>) =
       Inr (Some \<lparr>words = [''sleep'', ''5''], redirInput = None, redirOutput = None,
                   background = False\<rparr>,
            idle\<lparr>stdin := ''ls'', stdout := '': ''\<rparr>)
   \<and> getInput 4821 False (idle\<lparr>stdin := ''sleep 5 &'' @ NL # ''ls''\<rparr>) =
       Inr (Some \<lparr>words = [''sleep'', ''5''], redirInput = None, redirOutput = None,
                   background = True\<rparr>,
            idle\<lparr>stdin := ''ls'', stdout := '': ''\<rparr>)"
proof -
  have t: "tokens ''sleep 5 &'' = [''sleep'', ''5''] @ [''&'']"
    by (simp add: tokens.simps strtok_r_def)
  from c5_background_token [OF t, where backgroundOnly = True and processID = 4821
         and w = "idle\<lparr>stdin := ''sleep 5 &'' @ NL # ''ls''\<rparr>" and rest = "''ls''"]
       c5_background_token [OF t, where backgroundOnly = False and processID = 4821
         and w = "idle\<lparr>stdin := ''sleep 5 &'' @ NL # ''ls''\<rparr>" and rest = "''ls''"]
       t
  show ?thesis by (simp add: idle_def LINE_LENGTH_def)
qed

text \<open>
  Claim C5 as stated fails for the line \<^verbatim>\<open>&\<close>: the head node has no successor,
  \<^verbatim>\<open>setBackground\<close> removes nothing, and \<^verbatim>\<open>&\<close> stays the only word of the
  descriptor.
\<close>

theorem c5_counterexample:
  "getInput 4821 False (idle\<lparr>stdin := ''&'' @ [NL]\<rparr>) =
     Inr (Some \<lparr>words = [''&''], redirInput = None, redirOutput = None, background = True\<rparr>,
          idle\<lparr>stdin := [], stdout := '': ''\<rparr>)"
  by (simp add: eval_line idle_def)

text \<open>
  Claim C6 fails on the code. With process id 4821 the line \<^verbatim>\<open>echo $$ end\<close> is
  read up to the replaced \<^verbatim>\<open>$$\<close> only: \<^verbatim>\<open>sprintf\<close> has put a NUL at
  \<^verbatim>\<open>input[i]\<close>, so the test after \<^verbatim>\<open>check$$\<close> leaves the loop. The words are
  \<^verbatim>\<open>echo\<close> and \<^verbatim>\<open>4821\<close>, and the characters behind \<^verbatim>\<open>$$\<close> stay in the input
  stream for the next prompt.
\<close>

theorem c6_dollars_truncate:
  "getInput 4821 False (w\<lparr>stdin := ''echo $$ end'' @ [NL]\<rparr>) =
     Inr (Some \<lparr>words = [''echo'', ''4821''], redirInput = None, redirOutput = None,
                 background = False\<rparr>,
          w\<lparr>stdin := '' end'' @ [NL], stdout := stdout w @ '': ''\<rparr>)"
  by (simp add: eval_line)

text \<open>
  Claim C9 fails on the code. A line that consists of one space is neither empty
  nor a comment, \<^verbatim>\<open>strtok_r\<close> finds no token in it, and \<^verbatim>\<open>separateInput\<close> reads
  \<^verbatim>\<open>tail->text\<close> with \<^verbatim>\<open>tail\<close> still NULL.
\<close>

theorem c9_space_line_null:
  "getInput processID backgroundOnly (w\<lparr>stdin := [SP, NL]\<rparr>) = Inl NullDeref"
  by (simp add: eval_line)

subsection \<open>Redirection\<close>

lemma tail_facts:
  assumes "ws \<noteq> []" and "words head = ws @ [a, b]"
  shows "tl (words head) \<noteq> []" and "last (words head) = b"
    and "last (butlast (words head)) = a" and "butlast (butlast (words head)) = ws"
    and "length (words head) \<noteq> 2"
  using assms by (simp_all add: butlast_append)

lemma redirectIO_out:
  "ws \<noteq> [] \<Longrightarrow> words head = ws @ [''>'', f] \<Longrightarrow>
   redirectIO head = Inr (True, head\<lparr>redirOutput := Some f, words := ws\<rparr>)"
  using tail_facts [of ws head "''>''" f] by (simp add: redirectIO_def Let_def)

lemma redirectIO_in:
  "ws \<noteq> [] \<Longrightarrow> words head = ws @ [''<'', f] \<Longrightarrow>
   redirectIO head = Inr (True, head\<lparr>redirInput := Some f, words := ws\<rparr>)"
  using tail_facts [of ws head "''<''" f] by (simp add: redirectIO_def Let_def)

lemma redirectIO_other:
  "ws \<noteq> [] \<Longrightarrow> words head = ws @ [a, b] \<Longrightarrow> a \<noteq> ''>'' \<Longrightarrow> a \<noteq> ''<'' \<Longrightarrow>
   redirectIO head = Inr (False, head)"
  using tail_facts [of ws head a b] by (simp add: redirectIO_def Let_def)

lemma redirectIO_background:
  "redirectIO head = Inr (found, head1) \<Longrightarrow> background head1 = background head"
  by (auto simp: redirectIO_def Let_def split: if_splits)

lemma lookForRedirection_background:
  assumes "lookForRedirection head = Inr head2"
  shows "background head2 = background head"
proof (cases "redirectIO head")
  case (Inl f)
  with assms show ?thesis by (simp add: lookForRedirection_def)
next
  case (Inr t)
  obtain found head1 where t: "t = (found, head1)" by (cases t)
  from Inr t have b1: "background head1 = background head"
    by (simp add: redirectIO_background)
  show ?thesis
  proof (cases found)
    case False
    with assms Inr t b1 show ?thesis by (simp add: lookForRedirection_def)
  next
    case True
    show ?thesis
    proof (cases "redirectIO head1")
      case (Inl f)
      with assms \<open>redirectIO head = Inr t\<close> t True show ?thesis
        by (simp add: lookForRedirection_def)
    next
      case second: (Inr u)
      obtain found2 head3 where u: "u = (found2, head3)" by (cases u)
      from second u have "background head3 = background head1"
        by (simp add: redirectIO_background)
      with assms \<open>redirectIO head = Inr t\<close> t True second u b1 show ?thesis
        by (simp add: lookForRedirection_def)
    qed
  qed
qed

lemma after_in_out:
  "ws \<noteq> [] \<Longrightarrow> lookForRedirection (head\<lparr>words := ws @ [''<'', f, ''>'', g]\<rparr>) =
     Inr (head\<lparr>words := ws, redirInput := Some f, redirOutput := Some g\<rparr>)"
  using redirectIO_out [of "ws @ [''<'', f]" "head\<lparr>words := ws @ [''<'', f, ''>'', g]\<rparr>" g]
        redirectIO_in [of ws "head\<lparr>redirOutput := Some g, words := ws @ [''<'', f]\<rparr>" f]
  by (simp add: lookForRedirection_def)

lemma after_out_in:
  "ws \<noteq> [] \<Longrightarrow> lookForRedirection (head\<lparr>words := ws @ [''>'', g, ''<'', f]\<rparr>) =
     Inr (head\<lparr>words := ws, redirInput := Some f, redirOutput := Some g\<rparr>)"
  using redirectIO_in [of "ws @ [''>'', g]" "head\<lparr>words := ws @ [''>'', g, ''<'', f]\<rparr>" f]
        redirectIO_out [of ws "head\<lparr>redirInput := Some f, words := ws @ [''>'', g]\<rparr>" g]
  by (simp add: lookForRedirection_def)

lemma after_three:
  "lookForRedirection (head\<lparr>words := ws @ [''<'', e, ''<'', f, ''>'', g]\<rparr>) =
     Inr (head\<lparr>words := ws @ [''<'', e], redirInput := Some f, redirOutput := Some g\<rparr>)"
  using redirectIO_out [of "ws @ [''<'', e, ''<'', f]"
                           "head\<lparr>words := ws @ [''<'', e, ''<'', f, ''>'', g]\<rparr>" g]
        redirectIO_in [of "ws @ [''<'', e]"
                          "head\<lparr>redirOutput := Some g, words := ws @ [''<'', e, ''<'', f]\<rparr>" f]
  by (simp add: lookForRedirection_def)

lemma after_none:
  "ws \<noteq> [] \<Longrightarrow> a \<noteq> ''>'' \<Longrightarrow> a \<noteq> ''<'' \<Longrightarrow>
   lookForRedirection (head\<lparr>words := ws @ [a, b]\<rparr>) = Inr (head\<lparr>words := ws @ [a, b]\<rparr>)"
  using redirectIO_other [of ws "head\<lparr>words := ws @ [a, b]\<rparr>" a b]
  by (simp add: lookForRedirection_def)

text \<open>
  With at least one command word \<open>ws\<close> in front, an input and an output
  redirection are both taken off the end and recorded, in either order; a third
  pair stays among the words; a last-but-one word that is neither \<^verbatim>\<open><\<close> nor
  \<^verbatim>\<open>>\<close> changes nothing.
\<close>

lemma redirection_with_command:
  assumes "ws \<noteq> []"
  shows "lookForRedirection (head\<lparr>words := ws @ [''<'', f, ''>'', g]\<rparr>) =
           Inr (head\<lparr>words := ws, redirInput := Some f, redirOutput := Some g\<rparr>)
       \<and> lookForRedirection (head\<lparr>words := ws @ [''>'', g, ''<'', f]\<rparr>) =
           Inr (head\<lparr>words := ws, redirInput := Some f, redirOutput := Some g\<rparr>)
       \<and> lookForRedirection (head\<lparr>words := ws @ [''<'', e, ''<'', f, ''>'', g]\<rparr>) =
           Inr (head\<lparr>words := ws @ [''<'', e], redirInput := Some f, redirOutput := Some g\<rparr>)
       \<and> (a \<noteq> ''>'' \<and> a \<noteq> ''<'' \<longrightarrow>
            lookForRedirection (head\<lparr>words := ws @ [a, b]\<rparr>) =
              Inr (head\<lparr>words := ws @ [a, b]\<rparr>))
       \<and> (case separateInput False ''ls -l > out.txt'' of
             Inl x \<Rightarrow> Inl x | Inr h \<Rightarrow> lookForRedirection h) =
           Inr \<lparr>words = [''ls'', ''-l''], redirInput = None,
                redirOutput = Some ''out.txt'', background = False\<rparr>
       \<and> (case separateInput False ''wc < in.txt > out.txt'' of
             Inl x \<Rightarrow> Inl x | Inr h \<Rightarrow> lookForRedirection h) =
           Inr \<lparr>words = [''wc''], redirInput = Some ''in.txt'',
                redirOutput = Some ''out.txt'', background = False\<rparr>
       \<and> (case separateInput False ''wc > out.txt < in.txt'' of
             Inl x \<Rightarrow> Inl x | Inr h \<Rightarrow> lookForRedirection h) =
           Inr \<lparr>words = [''wc''], redirInput = Some ''in.txt'',
                redirOutput = Some ''out.txt'', background = False\<rparr>"
proof (intro conjI)
  show "(case separateInput False ''ls -l > out.txt'' of
             Inl x \<Rightarrow> Inl x | Inr h \<Rightarrow> lookForRedirection h) =
           Inr \<lparr>words = [''ls'', ''-l''], redirInput = None,
                redirOutput = Some ''out.txt'', background = False\<rparr>"
    by (simp add: eval_parse)
  show "(case separateInput False ''wc < in.txt > out.txt'' of
             Inl x \<Rightarrow> Inl x | Inr h \<Rightarrow> lookForRedirection h) =
           Inr \<lparr>words = [''wc''], redirInput = Some ''in.txt'',
                redirOutput = Some ''out.txt'', background = False\<rparr>"
    by (simp add: eval_parse)
  show "(case separateInput False ''wc > out.txt < in.txt'' of
             Inl x \<Rightarrow> Inl x | Inr h \<Rightarrow> lookForRedirection h) =
           Inr \<lparr>words = [''wc''], redirInput = Some ''in.txt'',
                redirOutput = Some ''out.txt'', background = False\<rparr>"
    by (simp add: eval_parse)
qed (use assms in \<open>simp_all add: after_in_out after_out_in after_three after_none\<close>)

text \<open>
  Claim C7 fails on the code when no command word stands before the
  redirections. For the line \<^verbatim>\<open>< in.txt > out.txt\<close> the first call of
  \<^verbatim>\<open>redirectIO\<close> takes off \<^verbatim>\<open>> out.txt\<close>; in the second call \<^verbatim>\<open>prevprev\<close> is
  NULL, and the \<^verbatim>\<open><\<close> branch, whose \<^verbatim>\<open>freeArguments(previous)\<close> is not under
  the test that guards it in the \<^verbatim>\<open>>\<close> branch, frees the head: the turn of the
  main loop reads freed memory. In the other order, \<^verbatim>\<open>> out.txt < in.txt\<close>, both
  redirections are recorded, but \<^verbatim>\<open>>\<close> and \<^verbatim>\<open>out.txt\<close> stay as the words.
\<close>

theorem c7_redirection_without_command:
  "main_iteration processID backgroundOnly elapse
     ([], exitStatus, w\<lparr>stdin := ''< in.txt > out.txt'' @ [NL]\<rparr>) = Inl (Fault UseAfterFree)
   \<and> (case separateInput backgroundOnly ''< in.txt > out.txt'' of
         Inl x \<Rightarrow> Inl x | Inr h \<Rightarrow> lookForRedirection h) = Inl UseAfterFree
   \<and> (case separateInput backgroundOnly ''> out.txt < in.txt'' of
         Inl x \<Rightarrow> Inl x | Inr h \<Rightarrow> lookForRedirection h) =
       Inr \<lparr>words = [''>'', ''out.txt''], redirInput = Some ''in.txt'',
            redirOutput = Some ''out.txt'', background = False\<rparr>"
  by (simp add: eval_turn eval_line)

subsection \<open>The list of child processes\<close>

lemma removeChildProc_append_fresh:
  "ident \<notin> set cs \<Longrightarrow> removeChildProc (cs @ [ident]) ident = cs"
  by (induction cs) auto

lemma removeChildProc_subset: "set (removeChildProc cs ident) \<subseteq> set cs"
  by (induction cs) auto

lemma removeChildProc_absent: "ident \<notin> set cs \<Longrightarrow> removeChildProc cs ident = cs"
  by (induction cs) auto

lemma removeChildProc_other:
  "p \<noteq> ident \<Longrightarrow> p \<in> set (removeChildProc cs ident) \<longleftrightarrow> p \<in> set cs"
  by (induction cs) auto

subsection \<open>Waiting and signalling\<close>

lemma waitpid_fresh_child:
  "waitpid (fork_parent w newID) newID False st =
     (case ends w newID of
        None \<Rightarrow> None
      | Some st1 \<Rightarrow>
          Some (newID, st1,
                w\<lparr>calls := calls w @ [Fork newID, Waitpid newID False],
                  procs := (procs w)(newID := None)\<rparr>))"
  by (simp add: waitpid_def fork_parent_def reap_def split: option.splits)

lemma waitpid_nohang_alive:
  "procs w p = Some Running \<or> procs w p = Some Signalled \<Longrightarrow>
   waitpid w p True st = Some (0, st, w\<lparr>calls := calls w @ [Waitpid p True]\<rparr>)"
  by (auto simp: waitpid_def)

lemma waitpid_zombie:
  "procs w p = Some (Zombie s) \<Longrightarrow>
   waitpid w p nohang st =
     Some (p, s, w\<lparr>calls := calls w @ [Waitpid p nohang], procs := (procs w)(p := None)\<rparr>)"
  by (simp add: waitpid_def reap_def)

lemma waitpid_nohang_cases:
  "\<exists>r st1 w1. waitpid w p True st = Some (r, st1, w1) \<and> (r = p \<or> r = 0 \<or> r = - 1)
     \<and> calls w1 = calls w @ [Waitpid p True] \<and> stdin w1 = stdin w \<and> stdout w1 = stdout w"
  by (auto simp: waitpid_def reap_def Let_def split: option.splits proc.splits)

lemma waitpid_after_kill:
  "waitpid (kill w p SIGTERM) p False st = Some (r, st1, w1) \<Longrightarrow>
   calls w1 = calls w @ [Kill p SIGTERM, Waitpid p False]
   \<and> procs w1 = (procs w)(p := None)
   \<and> stdout w1 = stdout w \<and> stdin w1 = stdin w \<and> ends_term w1 = ends_term w"
  by (auto simp: waitpid_def kill_def reap_def Let_def fun_eq_iff
           split: option.splits proc.splits if_splits)

lemma waitpid_after_kill_returns:
  "procs w p = Some Running \<or> procs w p = Some Signalled \<longrightarrow> ends_term w p \<noteq> None \<Longrightarrow>
   waitpid (kill w p SIGTERM) p False st \<noteq> None"
  by (auto simp: waitpid_def kill_def reap_def Let_def SIGTERM_def
           split: option.splits proc.splits if_splits)

subsection \<open>Foreground commands\<close>

text \<open>
  Claim C1. Let \<^verbatim>\<open>otherProcess\<close> get past the redirection words with a
  foreground descriptor, and let \<^verbatim>\<open>fork\<close> return the pid \<open>newID\<close> of a child.
  If that child never terminates, the shell stays blocked. If it terminates with
  status \<open>st\<close>, the call returns after exactly one blocking \<^verbatim>\<open>waitpid\<close> on
  \<open>newID\<close>; \<^verbatim>\<open>exitStatus\<close> is "exited" with the exit code, or "signaled" with
  the signal number; the line \<^verbatim>\<open>terminated by signal 2\<close> is printed exactly when
  the child was terminated by signal 2, and then \<^verbatim>\<open>printStatus\<close> prints that
  same line.
\<close>

theorem c1_foreground_dispatch:
  assumes "lookForRedirection head = Inr head1" and "\<not> background head"
    and "fork_result w = newID" and "newID \<noteq> - 1" and "newID \<noteq> 0"
  shows "(ends w newID = None \<longrightarrow> otherProcess head children exitStatus w = Inl Blocked)
       \<and> (\<forall>st. ends w newID = Some st \<longrightarrow>
            (case otherProcess head children exitStatus w of
               Inl s \<Rightarrow> False
             | Inr (children1, exitStatus1, w1) \<Rightarrow>
                 exitStatus1 = (case st of WExited n \<Rightarrow> \<lparr>exit = True, num = n\<rparr>
                                         | WSignaled n \<Rightarrow> \<lparr>exit = False, num = n\<rparr>)
               \<and> stdout w1 = stdout w @
                     (if st = WSignaled 2 then ''terminated by signal 2'' @ [NL] else [])
               \<and> calls w1 = calls w @ [Fork newID, Waitpid newID False]
               \<and> procs w1 = (procs w)(newID := None)
               \<and> (st = WSignaled 2 \<longrightarrow>
                    stdout (printStatus exitStatus1 w1) =
                      stdout w1 @ ''terminated by signal 2'' @ [NL])))"
  using assms lookForRedirection_background [of head head1]
  by (auto simp: otherProcess_def waitpid_fresh_child printf_def printStatus_def show_int_2
           split: wstatus.splits)

theorem c1_foreground_dispatch_witness:
  "lookForRedirection (makeArgument [''sleep'', ''100'']) = Inr (makeArgument [''sleep'', ''100''])
   \<and> \<not> background (makeArgument [''sleep'', ''100''])
   \<and> fork_result (idle\<lparr>fork_result := 9, ends := (\<lambda>p. None)(9 \<mapsto> WSignaled 2)\<rparr>) = 9
   \<and> ends (idle\<lparr>fork_result := 9, ends := (\<lambda>p. None)(9 \<mapsto> WSignaled 2)\<rparr>) 9 = Some (WSignaled 2)
   \<and> (case otherProcess (makeArgument [''sleep'', ''100'']) [] \<lparr>exit = True, num = 0\<rparr>
              (idle\<lparr>fork_result := 9, ends := (\<lambda>p. None)(9 \<mapsto> WSignaled 2)\<rparr>) of
         Inl s \<Rightarrow> False
       | Inr (children1, exitStatus1, w1) \<Rightarrow>
           exitStatus1 = \<lparr>exit = False, num = 2\<rparr>
           \<and> stdout w1 = ''terminated by signal 2'' @ [NL]
           \<and> calls w1 = [Fork 9, Waitpid 9 False]
           \<and> stdout (printStatus exitStatus1 w1) =
                ''terminated by signal 2'' @ [NL] @ ''terminated by signal 2'' @ [NL])"
proof -
  let ?w = "idle\<lparr>fork_result := 9, ends := (\<lambda>p. None)(9 \<mapsto> WSignaled 2)\<rparr>"
  have bg: "\<not> background (makeArgument [''sleep'', ''100''])"
    by (simp add: makeArgument_def)
  have fr: "fork_result ?w = 9" by simp
  have e: "ends ?w 9 = Some (WSignaled 2)" by simp
  from c1_foreground_dispatch [OF sleep_no_redirection bg fr, where children = "[]"
      and exitStatus = "\<lparr>exit = True, num = 0\<rparr>"] e
  have "case otherProcess (makeArgument [''sleep'', ''100'']) [] \<lparr>exit = True, num = 0\<rparr> ?w of
         Inl s \<Rightarrow> False
       | Inr (children1, exitStatus1, w1) \<Rightarrow>
           exitStatus1 = \<lparr>exit = False, num = 2\<rparr>
           \<and> stdout w1 = stdout ?w @ ''terminated by signal 2'' @ [NL]
           \<and> calls w1 = calls ?w @ [Fork 9, Waitpid 9 False]
           \<and> stdout (printStatus exitStatus1 w1) =
                stdout w1 @ ''terminated by signal 2'' @ [NL]"
    by (auto split: sum.splits)
  then show ?thesis
    using sleep_no_redirection bg by (auto simp: idle_def split: sum.splits)
qed

text \<open>
  Claim C10. For a foreground command the list of children that \<^verbatim>\<open>otherProcess\<close>
  returns is the list it was given: the pid of the new child is appended before
  the wait and removed after it. The pid is new, that is, not in the list: the
  kernel does not hand out the pid of a child that has not been reaped, and
  every pid in the list is such a child (lemma \<open>job_table_invariant\<close> below).
  If the call does not return, it is blocked on a child that never terminates.
\<close>

theorem c10_foreground_frame:
  assumes "lookForRedirection head = Inr head1" and "\<not> background head"
    and "fork_result w = newID" and "newID \<noteq> - 1" and "newID \<noteq> 0"
    and "newID \<notin> set children"
  shows "newID \<in> set (createChildProc children newID)
       \<and> removeChildProc (createChildProc children newID) newID = children
       \<and> (case otherProcess head children exitStatus w of
            Inl s \<Rightarrow> s = Blocked \<and> ends w newID = None
          | Inr (children1, exitStatus1, w1) \<Rightarrow> children1 = children \<and> ends w newID \<noteq> None)"
  using assms lookForRedirection_background [of head head1]
  by (auto simp: otherProcess_def waitpid_fresh_child createChildProc_def Let_def
                 removeChildProc_append_fresh
           split: wstatus.splits option.splits)

theorem c10_foreground_frame_witness:
  "lookForRedirection (makeArgument [''sleep'', ''100'']) = Inr (makeArgument [''sleep'', ''100''])
   \<and> \<not> background (makeArgument [''sleep'', ''100''])
   \<and> fork_result (idle\<lparr>fork_result := 9, ends := (\<lambda>p. None)(9 \<mapsto> WExited 0)\<rparr>) = 9
   \<and> (9::int) \<notin> set [7, 8]
   \<and> (case otherProcess (makeArgument [''sleep'', ''100'']) [7, 8] \<lparr>exit = True, num = 0\<rparr>
              (idle\<lparr>fork_result := 9, ends := (\<lambda>p. None)(9 \<mapsto> WExited 0)\<rparr>) of
         Inl s \<Rightarrow> False
       | Inr (children1, exitStatus1, w1) \<Rightarrow> children1 = [7, 8])"
proof -
  let ?w = "idle\<lparr>fork_result := 9, ends := (\<lambda>p. None)(9 \<mapsto> WExited 0)\<rparr>"
  have bg: "\<not> background (makeArgument [''sleep'', ''100''])"
    by (simp add: makeArgument_def)
  have fr: "fork_result ?w = 9" by simp
  have fresh: "(9::int) \<notin> set [7, 8]" by simp
  from c10_foreground_frame [OF sleep_no_redirection bg fr _ _ fresh,
                             where exitStatus = "\<lparr>exit = True, num = 0\<rparr>"]
  show ?thesis
    using sleep_no_redirection bg by (auto split: sum.splits)
qed

subsection \<open>Background commands and the reap pass\<close>

text \<open>
  The loop on a list of distinct pids, each of them an unreaped child: exactly
  the terminated ones are removed, announced and reaped, in the order of the list.
\<close>

lemma reap_loop_tracked:
  assumes "distinct (kept @ rest)" and "\<forall>p\<in>set rest. procs w p \<noteq> None \<and> p \<noteq> 0"
  shows "reap_loop kept rest sig st w =
           Inr (kept @ filter (\<lambda>p. \<not> terminated w p) rest,
                w\<lparr>stdout := stdout w @
                     concat (map (\<lambda>p. case procs w p of
                                        Some (Zombie s) \<Rightarrow> announce sig p s | _ \<Rightarrow> []) rest),
                  calls := calls w @ map (\<lambda>p. Waitpid p True) rest,
                  procs := (\<lambda>p. if p \<in> set rest \<and> terminated w p then None else procs w p)\<rparr>)"
  using assms
proof (induction rest arbitrary: kept st w)
  case Nil
  then show ?case by simp
next
  case (Cons p rest)
  from Cons.prems have fresh: "p \<notin> set kept" "p \<notin> set rest" and p0: "p \<noteq> 0"
    and child: "procs w p \<noteq> None" by auto
  from child obtain pr where pr: "procs w p = Some pr" by auto
  show ?case
  proof (cases "\<exists>s. pr = Zombie s")
    case False
    with pr have alive: "procs w p = Some Running \<or> procs w p = Some Signalled"
      by (cases pr) auto
    let ?w1 = "w\<lparr>calls := calls w @ [Waitpid p True]\<rparr>"
    have nt: "\<not> terminated w p" using alive by (auto simp: terminated_def)
    have t1: "terminated ?w1 = terminated w" by (simp add: terminated_def fun_eq_iff)
    have d: "distinct ((kept @ [p]) @ rest)" using Cons.prems(1) by simp
    have c: "\<forall>q\<in>set rest. procs ?w1 q \<noteq> None \<and> q \<noteq> 0" using Cons.prems(2) by simp
    have out: "(case procs w p of Some (Zombie s) \<Rightarrow> announce sig p s | _ \<Rightarrow> []) = []"
      using alive by auto
    show ?thesis
      using alive nt
      by (auto simp: waitpid_nohang_alive Cons.IH [OF d c] t1 fun_eq_iff)
  next
    case True
    then obtain s where z: "procs w p = Some (Zombie s)" using pr by auto
    let ?w2 = "printf (w\<lparr>calls := calls w @ [Waitpid p True], procs := (procs w)(p := None)\<rparr>)
                 (announce sig p s)"
    have tp: "terminated w p" using z by (simp add: terminated_def)
    have d: "distinct (kept @ rest)" using Cons.prems(1) by simp
    have c: "\<forall>q\<in>set rest. procs ?w2 q \<noteq> None \<and> q \<noteq> 0"
      using Cons.prems(2) fresh by (auto simp: printf_def)
    have f: "filter (\<lambda>q. \<not> terminated ?w2 q) rest = filter (\<lambda>q. \<not> terminated w q) rest"
      using fresh by (intro filter_cong) (auto simp: terminated_def printf_def)
    have m: "map (\<lambda>q. case procs ?w2 q of Some (Zombie s) \<Rightarrow> announce sig q s | _ \<Rightarrow> []) rest
           = map (\<lambda>q. case procs w q of Some (Zombie s) \<Rightarrow> announce sig q s | _ \<Rightarrow> []) rest"
      using fresh by (intro map_cong) (auto simp: printf_def)
    have pf: "(\<lambda>q. if q \<in> set rest \<and> terminated ?w2 q then None else procs ?w2 q)
            = (\<lambda>q. if q \<in> set (p # rest) \<and> terminated w q then None else procs w q)"
      using fresh tp by (auto simp: fun_eq_iff terminated_def printf_def)
    have step: "reap_loop kept (p # rest) sig st w = reap_loop kept rest sig s ?w2"
      using z p0 fresh by (simp add: waitpid_zombie removeChildProc_append_fresh)
    show ?thesis
      unfolding step Cons.IH [OF d c] f m pf
      using tp z by (simp add: printf_def)
  qed
qed

text \<open>
  Claim C3. For a background descriptor \<^verbatim>\<open>otherProcess\<close> returns without any
  \<^verbatim>\<open>waitpid\<close>, whatever the child does: the pid is appended to the list and
  printed. A pass of \<^verbatim>\<open>checkTerminatedChildren\<close> over a list \<open>tracked\<close> of
  distinct unreaped children keeps exactly the pids that have not terminated,
  and reaps the others. For each terminated child, in the order of the list, it
  prints one line: \<^verbatim>\<open>background pid P is done: exit value N\<close> after a normal
  exit, and after a signal \<^verbatim>\<open>background pid P is done: terminated by signal N\<close>
  (or \<^verbatim>\<open>terminated by signal N\<close> when \<^verbatim>\<open>sig\<close> is set). The list shrinks by
  the number of terminated children.
\<close>

theorem c3_background_lifecycle:
  assumes "lookForRedirection head = Inr head1" and "background head"
    and "fork_result w = newID" and "newID \<noteq> - 1" and "newID \<noteq> 0"
    and "distinct tracked" and "\<forall>p\<in>set tracked. procs v p \<noteq> None \<and> p \<noteq> 0"
  shows "otherProcess head children exitStatus w =
           Inr (children @ [newID], exitStatus,
                w\<lparr>calls := calls w @ [Fork newID],
                  procs := (procs w)(newID \<mapsto> Running),
                  stdout := stdout w @ ''background pid is '' @ show_int newID @ [NL]\<rparr>)
       \<and> checkTerminatedChildren tracked sig v =
           Inr (filter (\<lambda>p. \<not> terminated v p) tracked,
                v\<lparr>stdout := stdout v @
                     concat (map (\<lambda>p. case procs v p of
                                        Some (Zombie (WExited n)) \<Rightarrow>
                                          ''background pid '' @ show_int p
                                          @ '' is done: exit value '' @ show_int n @ [NL]
                                      | Some (Zombie (WSignaled n)) \<Rightarrow>
                                          if sig then ''terminated by signal '' @ show_int n @ [NL]
                                          else ''background pid '' @ show_int p
                                               @ '' is done: terminated by signal ''
                                               @ show_int n @ [NL]
                                      | _ \<Rightarrow> []) tracked),
                  calls := calls v @ map (\<lambda>p. Waitpid p True) tracked,
                  procs := (\<lambda>p. if p \<in> set tracked \<and> terminated v p then None else procs v p)\<rparr>)
       \<and> length (filter (\<lambda>p. \<not> terminated v p) tracked) + length (filter (terminated v) tracked)
           = length tracked"
proof (intro conjI)
  show "otherProcess head children exitStatus w =
           Inr (children @ [newID], exitStatus,
                w\<lparr>calls := calls w @ [Fork newID],
                  procs := (procs w)(newID \<mapsto> Running),
                  stdout := stdout w @ ''background pid is '' @ show_int newID @ [NL]\<rparr>)"
    using assms(1-5) lookForRedirection_background [of head head1]
    by (simp add: otherProcess_def createChildProc_def fork_parent_def printf_def)
next
  have d: "distinct ([] @ tracked)" using assms(6) by simp
  have msg: "(\<lambda>p. case procs v p of Some (Zombie s) \<Rightarrow> announce sig p s | _ \<Rightarrow> [])
           = (\<lambda>p. case procs v p of
                     Some (Zombie (WExited n)) \<Rightarrow>
                       ''background pid '' @ show_int p
                       @ '' is done: exit value '' @ show_int n @ [NL]
                   | Some (Zombie (WSignaled n)) \<Rightarrow>
                       if sig then ''terminated by signal '' @ show_int n @ [NL]
                       else ''background pid '' @ show_int p
                            @ '' is done: terminated by signal ''
                            @ show_int n @ [NL]
                   | _ \<Rightarrow> [])"
    by (auto simp: fun_eq_iff announce_def split: option.splits proc.splits wstatus.splits)
  show "checkTerminatedChildren tracked sig v =
           Inr (filter (\<lambda>p. \<not> terminated v p) tracked,
                v\<lparr>stdout := stdout v @
                     concat (map (\<lambda>p. case procs v p of
                                        Some (Zombie (WExited n)) \<Rightarrow>
                                          ''background pid '' @ show_int p
                                          @ '' is done: exit value '' @ show_int n @ [NL]
                                      | Some (Zombie (WSignaled n)) \<Rightarrow>
                                          if sig then ''terminated by signal '' @ show_int n @ [NL]
                                          else ''background pid '' @ show_int p
                                               @ '' is done: terminated by signal ''
                                               @ show_int n @ [NL]
                                      | _ \<Rightarrow> []) tracked),
                  calls := calls v @ map (\<lambda>p. Waitpid p True) tracked,
                  procs := (\<lambda>p. if p \<in> set tracked \<and> terminated v p then None else procs v p)\<rparr>)"
    using reap_loop_tracked [OF d assms(7), of sig "stack_status v"]
    unfolding msg
    by (simp add: checkTerminatedChildren_def)
next
  show "length (filter (\<lambda>p. \<not> terminated v p) tracked) + length (filter (terminated v) tracked)
           = length tracked"
    using sum_length_filter_compl [of "terminated v" tracked] by simp
qed

theorem c3_background_lifecycle_witness:
  "lookForRedirection ((makeArgument [''sleep'', ''100''])\<lparr>background := True\<rparr>) =
     Inr ((makeArgument [''sleep'', ''100''])\<lparr>background := True\<rparr>)
   \<and> otherProcess ((makeArgument [''sleep'', ''100''])\<lparr>background := True\<rparr>) [7]
        \<lparr>exit = True, num = 0\<rparr> (idle\<lparr>fork_result := 9\<rparr>) =
       Inr ([7, 9], \<lparr>exit = True, num = 0\<rparr>,
            idle\<lparr>fork_result := 9, calls := [Fork 9], procs := (\<lambda>p. None)(9 \<mapsto> Running),
                 stdout := ''background pid is 9'' @ [NL]\<rparr>)
   \<and> checkTerminatedChildren [5, 7, 9] False
        (idle\<lparr>procs := (\<lambda>p. None)(5 \<mapsto> Running, 7 \<mapsto> Zombie (WExited 3),
                                  9 \<mapsto> Zombie (WSignaled 15))\<rparr>) =
       Inr ([5],
            idle\<lparr>procs := (\<lambda>p. None)(5 \<mapsto> Running),
                 stdout := ''background pid 7 is done: exit value 3'' @ [NL]
                           @ ''background pid 9 is done: terminated by signal 15'' @ [NL],
                 calls := [Waitpid 5 True, Waitpid 7 True, Waitpid 9 True]\<rparr>)"
proof -
  let ?h = "(makeArgument [''sleep'', ''100''])\<lparr>background := True\<rparr>"
  let ?w = "idle\<lparr>fork_result := 9\<rparr>"
  let ?v = "idle\<lparr>procs := (\<lambda>p. None)(5 \<mapsto> Running, 7 \<mapsto> Zombie (WExited 3),
                                   9 \<mapsto> Zombie (WSignaled 15))\<rparr>"
  have r: "lookForRedirection ?h = Inr ?h"
    by (simp add: lookForRedirection_def redirectIO_def makeArgument_def)
  have bg: "background ?h" by simp
  have fr: "fork_result ?w = 9" by simp
  have d: "distinct [5, 7, 9 :: int]" by simp
  have c: "\<forall>p\<in>set [5, 7, 9]. procs ?v p \<noteq> None \<and> p \<noteq> 0" by simp
  have p: "(\<lambda>p. if p \<in> set [5, 7, 9] \<and> terminated ?v p then None else procs ?v p)
           = (\<lambda>p. None)(5 \<mapsto> Running)"
    by (auto simp: fun_eq_iff terminated_def)
  from c3_background_lifecycle [OF r bg fr _ _ d c, where children = "[7]"
      and exitStatus = "\<lparr>exit = True, num = 0\<rparr>" and sig = False]
  show ?thesis
    unfolding p using r
    by (simp add: idle_def show_int_digits show_int_more terminated_def)
qed

subsection \<open>The built-in \<^verbatim>\<open>exit\<close>\<close>

lemma killChildren_effect:
  "killChildren ps st w = Some w1 \<Longrightarrow>
   calls w1 = calls w @ concat (map (\<lambda>p. [Kill p SIGTERM, Waitpid p False]) ps)
   \<and> procs w1 = (\<lambda>p. if p \<in> set ps then None else procs w p)
   \<and> stdout w1 = stdout w \<and> stdin w1 = stdin w"
proof (induction ps arbitrary: st w)
  case Nil
  then show ?case by simp
next
  case (Cons p ps)
  from Cons.prems obtain r st1 w2 where
    step: "waitpid (kill w p SIGTERM) p False st = Some (r, st1, w2)"
    and rest: "killChildren ps st1 w2 = Some w1"
    by (auto split: option.splits)
  from waitpid_after_kill [OF step] Cons.IH [OF rest]
  show ?case by (auto simp: fun_eq_iff)
qed

lemma killChildren_returns:
  "\<forall>p\<in>set ps. procs w p = Some Running \<or> procs w p = Some Signalled \<longrightarrow> ends_term w p \<noteq> None \<Longrightarrow>
   killChildren ps st w \<noteq> None"
proof (induction ps arbitrary: st w)
  case Nil
  then show ?case by simp
next
  case (Cons p ps)
  from Cons.prems
  have "procs w p = Some Running \<or> procs w p = Some Signalled \<longrightarrow> ends_term w p \<noteq> None"
    by simp
  from waitpid_after_kill_returns [OF this, of st] obtain r st1 w2 where
    step: "waitpid (kill w p SIGTERM) p False st = Some (r, st1, w2)" by auto
  from waitpid_after_kill [OF step] Cons.prems
  have "\<forall>q\<in>set ps. procs w2 q = Some Running \<or> procs w2 q = Some Signalled
           \<longrightarrow> ends_term w2 q \<noteq> None"
    by auto
  from Cons.IH [OF this] step show ?case by simp
qed

lemma killChildren_blocks:
  assumes "killChildren ps st w = None"
  shows "\<exists>p\<in>set ps. (procs w p = Some Running \<or> procs w p = Some Signalled)
                     \<and> ends_term w p = None"
proof (rule ccontr)
  assume "\<not> ?thesis"
  then have "\<forall>p\<in>set ps. procs w p = Some Running \<or> procs w p = Some Signalled
               \<longrightarrow> ends_term w p \<noteq> None"
    by auto
  from killChildren_returns [OF this, of st] assms show False by simp
qed

text \<open>
  Claim C4. When the first word is \<^verbatim>\<open>exit\<close>, \<^verbatim>\<open>builtIn\<close> never returns. If
  the shell exits, the exit code is 0, every pid of the list has been sent
  SIGTERM and then waited for with a blocking \<^verbatim>\<open>waitpid\<close>, in the order of the
  list, and none of them is a child any more. The shell exits whenever every
  live child of the list terminates once SIGTERM is sent; otherwise it stays
  blocked on a live child that does not.
\<close>

theorem c4_exit_drains:
  assumes "words head = ''exit'' # args"
  shows "(case builtIn head children exitStatus w of
            Inl (Exit code w1) \<Rightarrow>
              code = 0
              \<and> calls w1 = calls w @ concat (map (\<lambda>p. [Kill p SIGTERM, Waitpid p False]) children)
              \<and> (\<forall>p\<in>set children. procs w1 p = None)
          | Inl Blocked \<Rightarrow>
              (\<exists>p\<in>set children. (procs w p = Some Running \<or> procs w p = Some Signalled)
                                  \<and> ends_term w p = None)
          | _ \<Rightarrow> False)
       \<and> ((\<forall>p\<in>set children. procs w p = Some Running \<or> procs w p = Some Signalled
                                \<longrightarrow> ends_term w p \<noteq> None) \<longrightarrow>
            (\<exists>w1. builtIn head children exitStatus w = Inl (Exit 0 w1)))"
proof (cases "killChildren children (stack_status w) w")
  case None
  from killChildren_blocks [OF None] None assms show ?thesis
    by (auto simp: builtIn_def)
next
  case (Some w1)
  from killChildren_effect [OF Some] Some assms show ?thesis
    by (auto simp: builtIn_def)
qed

theorem c4_exit_drains_witness:
  "words (makeArgument [''exit'']) = ''exit'' # []
   \<and> builtIn (makeArgument [''exit'']) [7] \<lparr>exit = True, num = 0\<rparr>
        (idle\<lparr>procs := (\<lambda>p. None)(7 \<mapsto> Running),
              ends_term := (\<lambda>p. None)(7 \<mapsto> WSignaled 15)\<rparr>) =
       Inl (Exit 0 (idle\<lparr>procs := (\<lambda>p. None),
                         ends_term := (\<lambda>p. None)(7 \<mapsto> WSignaled 15),
                         calls := [Kill 7 SIGTERM, Waitpid 7 False]\<rparr>))"
proof -
  let ?w = "idle\<lparr>procs := (\<lambda>p. None)(7 \<mapsto> Running),
                 ends_term := (\<lambda>p. None)(7 \<mapsto> WSignaled 15)\<rparr>"
  have h: "words (makeArgument [''exit'']) = ''exit'' # []" by (simp add: makeArgument_def)
  from c4_exit_drains [OF h, where children = "[7]"
      and exitStatus = "\<lparr>exit = True, num = 0\<rparr>" and w = ?w]
  show ?thesis
    using h
    by (simp add: builtIn_def waitpid_def kill_def reap_def idle_def Let_def)
qed

subsection \<open>One turn of the main loop\<close>

lemma reap_loop_positive:
  assumes "\<forall>p\<in>set kept \<union> set rest. 0 < p"
  shows "\<exists>kept1 w1. reap_loop kept rest sig st w = Inr (kept1, w1)
           \<and> calls w1 = calls w @ map (\<lambda>p. Waitpid p True) rest
           \<and> stdin w1 = stdin w \<and> (\<exists>out. stdout w1 = stdout w @ out)"
  using assms
proof (induction rest arbitrary: kept st w)
  case Nil
  then show ?case by simp
next
  case (Cons p rest)
  from waitpid_nohang_cases [of w p st] obtain r st1 w1 where
    wp: "waitpid w p True st = Some (r, st1, w1)" and r: "r = p \<or> r = 0 \<or> r = - 1"
    and c1: "calls w1 = calls w @ [Waitpid p True]" and i1: "stdin w1 = stdin w"
    and o1: "stdout w1 = stdout w" by blast
  have pos: "0 < p" "\<forall>q\<in>set kept. 0 < q" "\<forall>q\<in>set rest. 0 < q" using Cons.prems by auto
  show ?case
  proof (cases "r = 0")
    case True
    have "\<forall>q\<in>set (kept @ [p]) \<union> set rest. 0 < q" using pos by auto
    from Cons.IH [OF this, of st1 w1] wp True c1 i1 o1 show ?thesis by auto
  next
    case False
    let ?w2 = "printf w1 (announce sig r st1)"
    have w2: "calls ?w2 = calls w @ [Waitpid p True]" "stdin ?w2 = stdin w"
      "stdout ?w2 = stdout w @ announce sig r st1"
      using c1 i1 o1 by (simp_all add: printf_def)
    show ?thesis
    proof (cases "r = p")
      case True
      have "\<forall>q\<in>set (removeChildProc (kept @ [p]) r) \<union> set rest. 0 < q"
        using pos removeChildProc_subset [of "kept @ [p]" r] by auto
      from Cons.IH [OF this, of st1 ?w2] obtain kept1 w3 where
        "reap_loop (removeChildProc (kept @ [p]) r) rest sig st1 ?w2 = Inr (kept1, w3)"
        "calls w3 = calls ?w2 @ map (\<lambda>p. Waitpid p True) rest" "stdin w3 = stdin ?w2"
        "\<exists>out. stdout w3 = stdout ?w2 @ out" by blast
      with wp False True w2 show ?thesis by auto
    next
      case neq: False
      with r False have m: "r = - 1" by simp
      have n1: "r \<notin> set (kept @ [p])" using m pos by auto
      have n2: "r \<notin> set rest" using m pos by auto
      then have n3: "\<not> (rest \<noteq> [] \<and> hd rest = r)" by (cases rest) auto
      have "\<forall>q\<in>set (kept @ [p]) \<union> set rest. 0 < q" using pos by auto
      from Cons.IH [OF this, of st1 ?w2] obtain kept1 w3 where
        "reap_loop (kept @ [p]) rest sig st1 ?w2 = Inr (kept1, w3)"
        "calls w3 = calls ?w2 @ map (\<lambda>p. Waitpid p True) rest" "stdin w3 = stdin ?w2"
        "\<exists>out. stdout w3 = stdout ?w2 @ out" by blast
      with wp False n1 n3 w2 removeChildProc_absent [OF n2] show ?thesis
        by (auto simp del: set_append)
    qed
  qed
qed

lemma checkTerminatedChildren_positive:
  assumes "\<forall>p\<in>set children. 0 < p"
  shows "\<exists>children0 w0. checkTerminatedChildren children sig w = Inr (children0, w0)
           \<and> calls w0 = calls w @ map (\<lambda>p. Waitpid p True) children
           \<and> stdin w0 = stdin w \<and> (\<exists>out. stdout w0 = stdout w @ out)"
proof (cases "children = []")
  case True
  then show ?thesis by (simp add: checkTerminatedChildren_def)
next
  case False
  from assms have "\<forall>p\<in>set [] \<union> set children. 0 < p" by simp
  from reap_loop_positive [OF this, of sig "stack_status w" w] False
  show ?thesis by (simp add: checkTerminatedChildren_def)
qed

lemma reap_loop_extends:
  "reap_loop kept rest sig st w = Inr (k, w0) \<Longrightarrow>
   (\<exists>cs. calls w0 = calls w @ cs \<and> (\<forall>p. Waitpid p False \<notin> set cs))
   \<and> (\<exists>out. stdout w0 = stdout w @ out) \<and> stdin w0 = stdin w"
proof (induction kept rest sig st w rule: reap_loop.induct)
  case (1 kept sig childStatus w)
  then show ?case by simp
next
  case (2 kept p rest sig childStatus w)
  from waitpid_nohang_cases [of w p childStatus] obtain r st1 w1 where
    wp: "waitpid w p True childStatus = Some (r, st1, w1)"
    and c1: "calls w1 = calls w @ [Waitpid p True]" and i1: "stdin w1 = stdin w"
    and o1: "stdout w1 = stdout w" by blast
  let ?w2 = "printf w1 (announce sig r st1)"
  have w2: "calls ?w2 = calls w @ [Waitpid p True]" "stdin ?w2 = stdin w"
      "stdout ?w2 = stdout w @ announce sig r st1"
    using c1 i1 o1 by (simp_all add: printf_def)
  consider (a) "r = 0" | (b) "r \<noteq> 0" "r \<in> set (kept @ [p])"
    | (c) "r \<noteq> 0" "r \<notin> set (kept @ [p])" "\<not> (rest \<noteq> [] \<and> hd rest = r)"
    | (d) "r \<noteq> 0" "r \<notin> set (kept @ [p])" "rest \<noteq> [] \<and> hd rest = r"
    by blast
  then show ?case
  proof cases
    case a
    with "2.prems" wp have "reap_loop (kept @ [p]) rest sig st1 w1 = Inr (k, w0)" by simp
    moreover have "\<not> r \<noteq> 0" using a by simp
    ultimately show ?thesis
      using "2.IH"(3) [OF wp refl refl] c1 i1 o1 by auto
  next
    case b
    with "2.prems" wp
    have "reap_loop (removeChildProc (kept @ [p]) r) rest sig st1 ?w2 = Inr (k, w0)"
      by (simp del: set_append)
    from "2.IH"(1) [OF wp refl refl b(1) refl b(2) this] w2 show ?thesis by auto
  next
    case c
    with "2.prems" wp
    have "reap_loop (kept @ [p]) (removeChildProc rest r) sig st1 ?w2 = Inr (k, w0)"
      by (simp del: set_append)
    from "2.IH"(2) [OF wp refl refl c(1) refl c(2) c(3) this] w2 show ?thesis by auto
  next
    case d
    with "2.prems" wp show ?thesis by (simp del: set_append)
  qed
qed

lemma checkTerminatedChildren_extends:
  assumes "checkTerminatedChildren children sig w = Inr (children0, w0)"
  shows "(\<exists>cs. calls w0 = calls w @ cs \<and> (\<forall>p. Waitpid p False \<notin> set cs))
       \<and> (\<exists>out. stdout w0 = stdout w @ out) \<and> stdin w0 = stdin w"
proof (cases "children = []")
  case True
  with assms show ?thesis by (simp add: checkTerminatedChildren_def)
next
  case False
  with assms have "reap_loop [] children sig (stack_status w) w = Inr (children0, w0)"
    by (simp add: checkTerminatedChildren_def)
  from reap_loop_extends [OF this] show ?thesis .
qed

lemma getInput_effect:
  assumes "getInput processID backgroundOnly w = Inr (r, w1)"
  shows "w1 = w\<lparr>stdout := stdout w @ '': '', stdin := stdin w1\<rparr>"
proof (cases "getInput_loop processID (stack_input w) 0 (stdin w)")
  case (Inl f)
  with assms show ?thesis by (simp add: getInput_def printf_def)
next
  case (Inr t)
  obtain input i rest where t: "t = (input, i, rest)" by (cases t)
  show ?thesis
  proof (cases "separateInput backgroundOnly (cstring (input(i := NUL)))")
    case (Inl f)
    with Inr t assms show ?thesis
      by (auto simp: getInput_def printf_def Let_def split: if_splits)
  next
    case sep: (Inr h)
    with Inr t assms show ?thesis
      by (auto simp: getInput_def printf_def Let_def split: if_splits)
  qed
qed

lemma builtIn_effect:
  "builtIn head children exitStatus w = Inr (handled, w1) \<Longrightarrow>
   (\<exists>out. stdout w1 = stdout w @ out)
   \<and> (\<exists>cs. calls w1 = calls w @ cs \<and> (\<forall>p b. Waitpid p b \<notin> set cs))
   \<and> fork_result w1 = fork_result w \<and> ends w1 = ends w"
  by (auto simp: builtIn_def changeDir_def printStatus_def printf_def
           split: list.splits if_splits option.splits)

lemma builtIn_procs:
  "builtIn head children exitStatus w = Inr (handled, w1) \<Longrightarrow>
   procs w1 = procs w \<and> fork_result w1 = fork_result w"
  by (auto simp: builtIn_def changeDir_def printStatus_def printf_def
           split: list.splits if_splits option.splits)

lemma otherProcess_effect:
  assumes "otherProcess head children exitStatus w = Inr (children1, exitStatus1, w1)"
  shows "\<exists>head1. lookForRedirection head = Inr head1
           \<and> (if background head1
              then children1 = children @ [fork_result w] \<and> exitStatus1 = exitStatus
                   \<and> calls w1 = calls w @ [Fork (fork_result w)]
                   \<and> procs w1 = (procs w)(fork_result w \<mapsto> Running)
              else children1 = removeChildProc (children @ [fork_result w]) (fork_result w)
                   \<and> calls w1 = calls w @ [Fork (fork_result w), Waitpid (fork_result w) False]
                   \<and> procs w1 = (procs w)(fork_result w := None))
           \<and> (\<exists>out. stdout w1 = stdout w @ out)"
proof (cases "lookForRedirection head")
  case (Inl f)
  with assms show ?thesis by (simp add: otherProcess_def)
next
  case (Inr head1)
  from assms Inr have f: "fork_result w \<noteq> - 1" "fork_result w \<noteq> 0"
    by (auto simp: otherProcess_def Let_def split: if_splits)
  show ?thesis
  proof (cases "background head1")
    case True
    with assms Inr f show ?thesis
      by (auto simp: otherProcess_def createChildProc_def Let_def printf_def fork_parent_def)
  next
    case False
    show ?thesis
    proof (cases "ends w (fork_result w)")
      case None
      with assms Inr f False show ?thesis
        by (simp add: otherProcess_def waitpid_fresh_child Let_def)
    next
      case (Some st)
      with assms Inr f False show ?thesis
        by (cases st)
           (auto simp: otherProcess_def waitpid_fresh_child createChildProc_def Let_def printf_def)
    qed
  qed
qed

lemma otherProcess_no_reap:
  assumes "otherProcess head children exitStatus w = Inr (children1, exitStatus1, w1)"
  shows "(\<exists>cs. calls w1 = calls w @ cs \<and> (\<forall>p. Waitpid p True \<notin> set cs))
       \<and> (\<exists>out. stdout w1 = stdout w @ out)
       \<and> (\<forall>p. p \<noteq> fork_result w \<longrightarrow>
             procs w1 p = procs w p \<and> (p \<in> set children1 \<longleftrightarrow> p \<in> set children))"
proof -
  from otherProcess_effect [OF assms] obtain head1 where
    h1: "lookForRedirection head = Inr head1
       \<and> (if background head1
          then children1 = children @ [fork_result w] \<and> exitStatus1 = exitStatus
               \<and> calls w1 = calls w @ [Fork (fork_result w)]
               \<and> procs w1 = (procs w)(fork_result w \<mapsto> Running)
          else children1 = removeChildProc (children @ [fork_result w]) (fork_result w)
               \<and> calls w1 = calls w @ [Fork (fork_result w), Waitpid (fork_result w) False]
               \<and> procs w1 = (procs w)(fork_result w := None))
       \<and> (\<exists>out. stdout w1 = stdout w @ out)" ..
  show ?thesis
  proof (cases "background head1")
    case True
    with h1 show ?thesis by auto
  next
    case False
    with h1 show ?thesis by (auto simp: removeChildProc_other)
  qed
qed

lemma main_iteration_returns:
  assumes "main_iteration processID backgroundOnly elapse (children, exitStatus, w) =
             Inr (children1, exitStatus1, w1)"
  shows "\<exists>children0 w0 r w2.
           checkTerminatedChildren children False w = Inr (children0, w0)
         \<and> getInput processID backgroundOnly w0 = Inr (r, w2)
         \<and> (case r of
               None \<Rightarrow> children1 = children0 \<and> exitStatus1 = exitStatus
                        \<and> w1 = w2\<lparr>procs := elapse (procs w2)\<rparr>
             | Some head \<Rightarrow>
                 (\<exists>handled w3.
                    builtIn head children0 exitStatus (w2\<lparr>procs := elapse (procs w2)\<rparr>) =
                      Inr (handled, w3)
                  \<and> (if handled then children1 = children0 \<and> exitStatus1 = exitStatus \<and> w1 = w3
                      else otherProcess head children0 exitStatus w3 =
                             Inr (children1, exitStatus1, w1))))"
proof (cases "checkTerminatedChildren children False w")
  case (Inl s)
  with assms show ?thesis by (simp add: main_iteration_def)
next
  case (Inr t)
  obtain children0 w0 where t: "t = (children0, w0)" by (cases t)
  show ?thesis
  proof (cases "getInput processID backgroundOnly w0")
    case (Inl f)
    with assms Inr t show ?thesis by (simp add: main_iteration_def)
  next
    case gi: (Inr u)
    obtain r w2 where u: "u = (r, w2)" by (cases u)
    show ?thesis
    proof (cases r)
      case None
      with assms Inr t gi u show ?thesis by (auto simp: main_iteration_def)
    next
      case (Some head)
      show ?thesis
      proof (cases "builtIn head children0 exitStatus (w2\<lparr>procs := elapse (procs w2)\<rparr>)")
        case (Inl s)
        with assms Inr t gi u Some show ?thesis by (simp add: main_iteration_def)
      next
        case bi: (Inr v)
        obtain handled w3 where v: "v = (handled, w3)" by (cases v)
        with assms Inr t gi u Some bi show ?thesis
          by (auto simp: main_iteration_def split: if_splits)
      qed
    qed
  qed
qed

text \<open>
  What the hypotheses on the list of children rest on. If the pids of the list
  are distinct, positive, unreaped children, if \<^verbatim>\<open>fork\<close> fails or returns a
  positive pid that no unreaped child has, and if children only terminate while
  the shell reads, then the same holds of the list after the turn.
\<close>

lemma job_table_invariant:
  assumes turn: "main_iteration processID backgroundOnly elapse (children, exitStatus, w) =
             Inr (children1, exitStatus1, w1)"
    and d: "distinct children"
    and tr: "\<forall>p\<in>set children. procs w p \<noteq> None \<and> 0 < p"
    and fr: "fork_result w = - 1 \<or> (0 < fork_result w \<and> procs w (fork_result w) = None)"
    and el: "\<forall>m p. (elapse m p = None) = (m p = None)"
  shows "distinct children1 \<and> (\<forall>p\<in>set children1. procs w1 p \<noteq> None \<and> 0 < p)"
proof -
  let ?children0 = "filter (\<lambda>p. \<not> terminated w p) children"
  let ?w0 = "w\<lparr>stdout := stdout w @
                     concat (map (\<lambda>p. case procs w p of
                                        Some (Zombie s) \<Rightarrow> announce False p s | _ \<Rightarrow> []) children),
                  calls := calls w @ map (\<lambda>p. Waitpid p True) children,
                  procs := (\<lambda>p. if p \<in> set children \<and> terminated w p then None else procs w p)\<rparr>"
  have tr': "\<forall>p\<in>set children. procs w p \<noteq> None \<and> p \<noteq> 0" using tr by auto
  have d': "distinct ([] @ children)" using d by simp
  have ct: "checkTerminatedChildren children False w = Inr (?children0, ?w0)"
    using reap_loop_tracked [OF d' tr', of False "stack_status w"]
    by (simp add: checkTerminatedChildren_def)
  from main_iteration_returns [OF turn] ct obtain r w2 where
    gi: "getInput processID backgroundOnly ?w0 = Inr (r, w2)"
    and rest: "case r of
               None \<Rightarrow> children1 = ?children0 \<and> exitStatus1 = exitStatus
                        \<and> w1 = w2\<lparr>procs := elapse (procs w2)\<rparr>
             | Some head \<Rightarrow>
                 (\<exists>handled w3.
                    builtIn head ?children0 exitStatus (w2\<lparr>procs := elapse (procs w2)\<rparr>) =
                      Inr (handled, w3)
                  \<and> (if handled then children1 = ?children0 \<and> exitStatus1 = exitStatus \<and> w1 = w3
                      else otherProcess head ?children0 exitStatus w3 =
                             Inr (children1, exitStatus1, w1)))"
    by auto
  from getInput_effect [OF gi]
  have w2: "w2 = ?w0\<lparr>stdout := stdout ?w0 @ '': '', stdin := stdin w2\<rparr>" .
  have p2: "procs w2 = procs ?w0" and f2: "fork_result w2 = fork_result w"
    by (subst w2, simp)+
  let ?w2' = "w2\<lparr>procs := elapse (procs w2)\<rparr>"
  have d0: "distinct ?children0" using d by simp
  have tr2: "\<forall>p\<in>set ?children0. procs ?w2' p \<noteq> None \<and> 0 < p"
    using tr el p2 by auto
  have fr2: "fork_result ?w2' = - 1 \<or>
             (0 < fork_result ?w2' \<and> procs ?w2' (fork_result ?w2') = None)"
    using fr el p2 f2 by auto
  show ?thesis
  proof (cases r)
    case None
    with rest d0 tr2 show ?thesis by simp
  next
    case (Some head)
    with rest obtain handled w3 where
      bi: "builtIn head ?children0 exitStatus ?w2' = Inr (handled, w3)"
      and disp: "if handled then children1 = ?children0 \<and> exitStatus1 = exitStatus \<and> w1 = w3
                 else otherProcess head ?children0 exitStatus w3 = Inr (children1, exitStatus1, w1)"
      by auto
    from builtIn_procs [OF bi] have p3: "procs w3 = procs ?w2'"
      and f3: "fork_result w3 = fork_result ?w2'" by simp_all
    have tr3: "\<forall>p\<in>set ?children0. procs w3 p \<noteq> None \<and> 0 < p"
      using tr2 p3 by simp
    show ?thesis
    proof (cases handled)
      case True
      with disp d0 tr3 show ?thesis by simp
    next
      case False
      with disp have op: "otherProcess head ?children0 exitStatus w3 =
                            Inr (children1, exitStatus1, w1)" by simp
      let ?n = "fork_result w3"
      from op have "?n \<noteq> - 1"
        by (auto simp: otherProcess_def Let_def split: sum.splits if_splits)
      with fr2 f3 p3 have n: "0 < ?n" "procs w3 ?n = None" by auto
      with tr3 have fresh: "?n \<notin> set ?children0" by auto
      from otherProcess_effect [OF op] obtain head1 where
        h1: "lookForRedirection head = Inr head1
           \<and> (if background head1
              then children1 = ?children0 @ [?n] \<and> exitStatus1 = exitStatus
                   \<and> calls w1 = calls w3 @ [Fork ?n]
                   \<and> procs w1 = (procs w3)(?n \<mapsto> Running)
              else children1 = removeChildProc (?children0 @ [?n]) ?n
                   \<and> calls w1 = calls w3 @ [Fork ?n, Waitpid ?n False]
                   \<and> procs w1 = (procs w3)(?n := None))
           \<and> (\<exists>out. stdout w1 = stdout w3 @ out)" ..
      show ?thesis
      proof (cases "background head1")
        case True
        with h1 have "children1 = ?children0 @ [?n]" "procs w1 = (procs w3)(?n \<mapsto> Running)"
          by simp_all
        with d0 tr3 fresh n show ?thesis by auto
      next
        case fg: False
        with h1 have "children1 = removeChildProc (?children0 @ [?n]) ?n"
          "procs w1 = (procs w3)(?n := None)" by simp_all
        with removeChildProc_append_fresh [OF fresh]
        have "children1 = ?children0" "procs w1 = (procs w3)(?n := None)" by simp_all
        with d0 tr3 fresh show ?thesis by auto
      qed
    qed
  qed
qed

text \<open>
  Claim C2. In a turn of the main loop that returns, \<^verbatim>\<open>exitStatus\<close> changes
  only if the turn made a blocking \<^verbatim>\<open>waitpid\<close>, that is, completed a foreground
  command: when the calls of the turn contain no blocking wait, the status after
  the turn is the status before it, whatever the reap pass at the start of the
  turn collected and announced.
\<close>

theorem c2_last_status_frame:
  assumes "main_iteration processID backgroundOnly elapse (children, exitStatus, w) =
             Inr (children1, exitStatus1, w1)"
    and "calls w1 = calls w @ cs" and "\<forall>p. Waitpid p False \<notin> set cs"
  shows "exitStatus1 = exitStatus"
proof -
  from main_iteration_returns [OF assms(1)] obtain children0 w0 r w2 where
    ct: "checkTerminatedChildren children False w = Inr (children0, w0)"
    and gi: "getInput processID backgroundOnly w0 = Inr (r, w2)"
    and rest: "case r of
               None \<Rightarrow> children1 = children0 \<and> exitStatus1 = exitStatus
                        \<and> w1 = w2\<lparr>procs := elapse (procs w2)\<rparr>
             | Some head \<Rightarrow>
                 (\<exists>handled w3.
                    builtIn head children0 exitStatus (w2\<lparr>procs := elapse (procs w2)\<rparr>) =
                      Inr (handled, w3)
                  \<and> (if handled then children1 = children0 \<and> exitStatus1 = exitStatus \<and> w1 = w3
                      else otherProcess head children0 exitStatus w3 =
                             Inr (children1, exitStatus1, w1)))"
    by blast
  show ?thesis
  proof (cases r)
    case None
    with rest show ?thesis by simp
  next
    case (Some head)
    with rest obtain handled w3 where
      bi: "builtIn head children0 exitStatus (w2\<lparr>procs := elapse (procs w2)\<rparr>) = Inr (handled, w3)"
      and disp: "if handled then children1 = children0 \<and> exitStatus1 = exitStatus \<and> w1 = w3
                 else otherProcess head children0 exitStatus w3 = Inr (children1, exitStatus1, w1)"
      by auto
    show ?thesis
    proof (cases handled)
      case True
      with disp show ?thesis by simp
    next
      case False
      with disp have op: "otherProcess head children0 exitStatus w3 = Inr (children1, exitStatus1, w1)"
        by simp
      from otherProcess_effect [OF op] obtain head1 where
        h1: "lookForRedirection head = Inr head1
           \<and> (if background head1
              then children1 = children0 @ [fork_result w3] \<and> exitStatus1 = exitStatus
                   \<and> calls w1 = calls w3 @ [Fork (fork_result w3)]
                   \<and> procs w1 = (procs w3)(fork_result w3 \<mapsto> Running)
              else children1 = removeChildProc (children0 @ [fork_result w3]) (fork_result w3)
                   \<and> calls w1 = calls w3 @ [Fork (fork_result w3), Waitpid (fork_result w3) False]
                   \<and> procs w1 = (procs w3)(fork_result w3 := None))
           \<and> (\<exists>out. stdout w1 = stdout w3 @ out)" ..
      show ?thesis
      proof (cases "background head1")
        case True
        with h1 show ?thesis by simp
      next
        case fg: False
        with h1 have c1: "calls w1 = calls w3 @ [Fork (fork_result w3), Waitpid (fork_result w3) False]"
          by simp
        from checkTerminatedChildren_extends [OF ct] obtain cs0 where
          c0: "calls w0 = calls w @ cs0" by blast
        from getInput_effect [OF gi] have c2: "calls w2 = calls w0"
          by (metis world.select_convs(4) world.surjective world.update_convs(1,2))
        from builtIn_effect [OF bi] obtain cs3 where c3: "calls w3 = calls w2 @ cs3"
          by auto
        from c0 c1 c2 c3 assms(2)
        have "cs = cs0 @ cs3 @ [Fork (fork_result w3), Waitpid (fork_result w3) False]"
          by simp
        with assms(3) show ?thesis by auto
      qed
    qed
  qed
qed

theorem c2_last_status_frame_witness:
  "main_iteration 4821 False (\<lambda>m. m)
     ([7], \<lparr>exit = False, num = 15\<rparr>,
      idle\<lparr>stdin := ''status'' @ [NL], procs := (\<lambda>p. None)(7 \<mapsto> Zombie (WExited 3))\<rparr>) =
   Inr ([], \<lparr>exit = False, num = 15\<rparr>,
        idle\<lparr>stdin := [],
             stdout := ''background pid 7 is done: exit value 3'' @ [NL] @ '': ''
                       @ ''terminated by signal 15'' @ [NL],
             calls := [Waitpid 7 True]\<rparr>)
   \<and> calls (idle\<lparr>stdin := [],
             stdout := ''background pid 7 is done: exit value 3'' @ [NL] @ '': ''
                       @ ''terminated by signal 15'' @ [NL],
             calls := [Waitpid 7 True]\<rparr>) =
       calls (idle\<lparr>stdin := ''status'' @ [NL],
                   procs := (\<lambda>p. None)(7 \<mapsto> Zombie (WExited 3))\<rparr>) @ [Waitpid 7 True]
   \<and> Waitpid 7 False \<notin> set [Waitpid 7 True]
   \<and> \<lparr>exit = False, num = 15\<rparr> = \<lparr>exit = False, num = (15::int)\<rparr>"
proof -
  have c: "calls (idle\<lparr>stdin := [],
             stdout := ''background pid 7 is done: exit value 3'' @ [NL] @ '': ''
                       @ ''terminated by signal 15'' @ [NL],
             calls := [Waitpid 7 True]\<rparr>) =
       calls (idle\<lparr>stdin := ''status'' @ [NL],
                   procs := (\<lambda>p. None)(7 \<mapsto> Zombie (WExited 3))\<rparr>) @ [Waitpid 7 True]"
    by (simp add: idle_def)
  have n: "\<forall>p. Waitpid p False \<notin> set [Waitpid 7 True]" by simp
  from c2_last_status_frame [OF turn_status c n] turn_status c show ?thesis by simp
qed

text \<open>
  Claim C8, as amended. With positive pids in the list, every turn of the main
  loop starts with one pass of \<^verbatim>\<open>checkTerminatedChildren\<close> with \<^verbatim>\<open>sig = false\<close>:
  one \<^verbatim>\<open>waitpid\<close> with \<^verbatim>\<open>WNOHANG\<close> per pid of the list, in order, before any
  input is read; if the turn returns, the prompt follows the output of the pass,
  and the rest of the turn makes no \<^verbatim>\<open>waitpid\<close> with \<^verbatim>\<open>WNOHANG\<close>. In
  particular \<^verbatim>\<open>otherProcess\<close> makes none on any path, and leaves every other
  pid in the list and every other child as it was.
\<close>

theorem c8_reap_once_per_turn:
  assumes "\<forall>p\<in>set children. 0 < p"
  shows "(\<exists>children0 w0.
            checkTerminatedChildren children False w = Inr (children0, w0)
          \<and> calls w0 = calls w @ map (\<lambda>p. Waitpid p True) children
          \<and> stdin w0 = stdin w
          \<and> (\<forall>children1 exitStatus1 w1.
                main_iteration processID backgroundOnly elapse (children, exitStatus, w) =
                  Inr (children1, exitStatus1, w1) \<longrightarrow>
                (\<exists>out. stdout w1 = stdout w0 @ '': '' @ out)
                \<and> (\<exists>cs. calls w1 = calls w0 @ cs \<and> (\<forall>p. Waitpid p True \<notin> set cs))))
       \<and> (\<forall>children1 exitStatus1 w1.
            otherProcess head children exitStatus w = Inr (children1, exitStatus1, w1) \<longrightarrow>
            (\<exists>cs. calls w1 = calls w @ cs \<and> (\<forall>p. Waitpid p True \<notin> set cs))
            \<and> (\<forall>p. p \<noteq> fork_result w \<longrightarrow>
                  procs w1 p = procs w p \<and> (p \<in> set children1 \<longleftrightarrow> p \<in> set children)))"
proof (intro conjI)
  from checkTerminatedChildren_positive [OF assms, of False w] obtain children0 w0 where
    ct: "checkTerminatedChildren children False w = Inr (children0, w0)"
    and c0: "calls w0 = calls w @ map (\<lambda>p. Waitpid p True) children"
    and i0: "stdin w0 = stdin w" by blast
  have "(\<exists>out. stdout w1 = stdout w0 @ '': '' @ out)
        \<and> (\<exists>cs. calls w1 = calls w0 @ cs \<and> (\<forall>p. Waitpid p True \<notin> set cs))"
    if mi: "main_iteration processID backgroundOnly elapse (children, exitStatus, w) =
              Inr (children1, exitStatus1, w1)" for children1 exitStatus1 w1
  proof -
    from main_iteration_returns [OF mi] ct obtain r w2 where
      gi: "getInput processID backgroundOnly w0 = Inr (r, w2)"
      and rest: "case r of
               None \<Rightarrow> children1 = children0 \<and> exitStatus1 = exitStatus
                        \<and> w1 = w2\<lparr>procs := elapse (procs w2)\<rparr>
             | Some head \<Rightarrow>
                 (\<exists>handled w3.
                    builtIn head children0 exitStatus (w2\<lparr>procs := elapse (procs w2)\<rparr>) =
                      Inr (handled, w3)
                  \<and> (if handled then children1 = children0 \<and> exitStatus1 = exitStatus \<and> w1 = w3
                      else otherProcess head children0 exitStatus w3 =
                             Inr (children1, exitStatus1, w1)))"
      by auto
    from getInput_effect [OF gi] have w2: "w2 = w0\<lparr>stdout := stdout w0 @ '': '', stdin := stdin w2\<rparr>" .
    have c2: "calls w2 = calls w0" by (subst w2) simp
    have o2: "stdout w2 = stdout w0 @ '': ''" by (subst w2) simp
    show ?thesis
    proof (cases r)
      case None
      with rest have "w1 = w2\<lparr>procs := elapse (procs w2)\<rparr>" by simp
      then have "calls w1 = calls w2" "stdout w1 = stdout w2" by simp_all
      with c2 o2 show ?thesis by simp
    next
      case (Some h)
      with rest obtain handled w3 where
        bi: "builtIn h children0 exitStatus (w2\<lparr>procs := elapse (procs w2)\<rparr>) = Inr (handled, w3)"
        and disp: "if handled then children1 = children0 \<and> exitStatus1 = exitStatus \<and> w1 = w3
                 else otherProcess h children0 exitStatus w3 = Inr (children1, exitStatus1, w1)"
        by auto
      from builtIn_effect [OF bi] obtain out3 cs3 where
        o3: "stdout w3 = stdout w2 @ out3" and c3: "calls w3 = calls w2 @ cs3"
        and n3: "\<forall>p. Waitpid p True \<notin> set cs3" by auto
      show ?thesis
      proof (cases handled)
        case True
        with disp have "w1 = w3" by simp
        with o3 c3 n3 c2 o2 show ?thesis by auto
      next
        case False
        with disp have "otherProcess h children0 exitStatus w3 = Inr (children1, exitStatus1, w1)"
          by simp
        from otherProcess_no_reap [OF this] obtain out4 cs4 where
          "stdout w1 = stdout w3 @ out4" "calls w1 = calls w3 @ cs4"
          "\<forall>p. Waitpid p True \<notin> set cs4" by auto
        with o3 c3 n3 c2 o2 show ?thesis by auto
      qed
    qed
  qed
  with ct c0 i0 show "\<exists>children0 w0.
            checkTerminatedChildren children False w = Inr (children0, w0)
          \<and> calls w0 = calls w @ map (\<lambda>p. Waitpid p True) children
          \<and> stdin w0 = stdin w
          \<and> (\<forall>children1 exitStatus1 w1.
                main_iteration processID backgroundOnly elapse (children, exitStatus, w) =
                  Inr (children1, exitStatus1, w1) \<longrightarrow>
                (\<exists>out. stdout w1 = stdout w0 @ '': '' @ out)
                \<and> (\<exists>cs. calls w1 = calls w0 @ cs \<and> (\<forall>p. Waitpid p True \<notin> set cs)))"
    by blast
next
  show "\<forall>children1 exitStatus1 w1.
            otherProcess head children exitStatus w = Inr (children1, exitStatus1, w1) \<longrightarrow>
            (\<exists>cs. calls w1 = calls w @ cs \<and> (\<forall>p. Waitpid p True \<notin> set cs))
            \<and> (\<forall>p. p \<noteq> fork_result w \<longrightarrow>
                  procs w1 p = procs w p \<and> (p \<in> set children1 \<longleftrightarrow> p \<in> set children))"
    using otherProcess_no_reap by blast
qed

theorem c8_reap_once_per_turn_witness:
  "(0::int) < 7
   \<and> checkTerminatedChildren [7] False
        (idle\<lparr>stdin := ''status'' @ [NL], procs := (\<lambda>p. None)(7 \<mapsto> Zombie (WExited 3))\<rparr>) =
       Inr ([], idle\<lparr>stdin := ''status'' @ [NL],
                     stdout := ''background pid 7 is done: exit value 3'' @ [NL],
                     calls := [Waitpid 7 True]\<rparr>)
   \<and> main_iteration 4821 False (\<lambda>m. m)
        ([7], \<lparr>exit = False, num = 15\<rparr>,
         idle\<lparr>stdin := ''status'' @ [NL], procs := (\<lambda>p. None)(7 \<mapsto> Zombie (WExited 3))\<rparr>) =
       Inr ([], \<lparr>exit = False, num = 15\<rparr>,
            idle\<lparr>stdin := [],
                 stdout := ''background pid 7 is done: exit value 3'' @ [NL] @ '': ''
                           @ ''terminated by signal 15'' @ [NL],
                 calls := [Waitpid 7 True]\<rparr>)"
proof -
  have pos: "\<forall>p\<in>set [7::int]. 0 < p" by simp
  have ct: "checkTerminatedChildren [7] False
        (idle\<lparr>stdin := ''status'' @ [NL], procs := (\<lambda>p. None)(7 \<mapsto> Zombie (WExited 3))\<rparr>) =
       Inr ([], idle\<lparr>stdin := ''status'' @ [NL],
                     stdout := ''background pid 7 is done: exit value 3'' @ [NL],
                     calls := [Waitpid 7 True]\<rparr>)"
    by (simp add: eval_turn printf_def decimal.simps digit_def)
  from c8_reap_once_per_turn [OF pos, where processID = 4821 and backgroundOnly = False
        and elapse = "\<lambda>m. m" and exitStatus = "\<lparr>exit = False, num = 15\<rparr>"
        and head = "makeArgument [''status'']"
        and w = "idle\<lparr>stdin := ''status'' @ [NL],
                      procs := (\<lambda>p. None)(7 \<mapsto> Zombie (WExited 3))\<rparr>"]
    ct turn_status
  show ?thesis by simp
qed

text \<open>
  Claim C8 as stated fails in the path of a foreground child terminated by
  signal 2: child 7 has terminated, and \<^verbatim>\<open>otherProcess\<close> neither asks for its
  status nor announces it nor removes it; the only output is the notice for the
  foreground child.
\<close>

theorem c8_counterexample:
  "otherProcess (makeArgument [''sleep'', ''100'']) [7] \<lparr>exit = True, num = 0\<rparr>
     (idle\<lparr>procs := (\<lambda>p. None)(7 \<mapsto> Zombie (WSignaled 15)), fork_result := 9,
           ends := (\<lambda>p. None)(9 \<mapsto> WSignaled 2)\<rparr>) =
   Inr ([7], \<lparr>exit = False, num = 2\<rparr>,
        idle\<lparr>procs := (\<lambda>p. None)(7 \<mapsto> Zombie (WSignaled 15)), fork_result := 9,
             ends := (\<lambda>p. None)(9 \<mapsto> WSignaled 2),
             calls := [Fork 9, Waitpid 9 False],
             stdout := ''terminated by signal 2'' @ [NL]\<rparr>)"
  by (simp add: otherProcess_def lookForRedirection_def redirectIO_def makeArgument_def
        fork_parent_def waitpid_def reap_def createChildProc_def printf_def idle_def show_int_2
        fun_upd_twist)

end
